theory Spec2Isabelle
  imports Main
begin

section \<open>Strings and paths\<close>

text \<open>
  Python strings are modelled as \<open>string\<close> (lists of characters). The helpers below
  are the library calls that \<open>WebsiteProcessor\<close> makes on strings: \<open>str.lstrip("/")\<close>,
  \<open>str.rstrip("/")\<close>, \<open>str.startswith\<close>, the substring test \<open>a in b\<close>, \<open>str.lower\<close>
  (on ASCII letters), \<open>str.replace\<close> and \<open>pathlib.Path(p).suffix\<close>.
\<close>

definition dquote :: char where
  "dquote = CHR 0x22"

definition squote :: char where
  "squote = CHR 0x27"

definition lstrip_slash :: "string \<Rightarrow> string" where
  "lstrip_slash p = dropWhile (\<lambda>c. c = CHR ''/'') p"

definition rstrip_slash :: "string \<Rightarrow> string" where
  "rstrip_slash p = rev (dropWhile (\<lambda>c. c = CHR ''/'') (rev p))"

definition startswith :: "string \<Rightarrow> string \<Rightarrow> bool" where
  "startswith s p = (take (length p) s = p)"

fun contains :: "string \<Rightarrow> string \<Rightarrow> bool" where
  "contains needle [] = (needle = [])"
| "contains needle (c # cs) = (startswith (c # cs) needle \<or> contains needle cs)"

definition lower_char :: "char \<Rightarrow> char" where
  "lower_char c =
     (case map_of (zip ''ABCDEFGHIJKLMNOPQRSTUVWXYZ'' ''abcdefghijklmnopqrstuvwxyz'') c of
        Some d \<Rightarrow> d
      | None \<Rightarrow> c)"

definition lower :: "string \<Rightarrow> string" where
  "lower s = map lower_char s"

text \<open>\<open>s.replace(old, new)\<close> for a non-empty \<open>old\<close>: every occurrence, left to right,
  without overlaps. (The source only calls it with a non-empty \<open>old\<close>.)\<close>

function str_replace :: "string \<Rightarrow> string \<Rightarrow> string \<Rightarrow> string" where
  "str_replace old new [] = []"
| "str_replace old new (c # cs) =
     (if old \<noteq> [] \<and> startswith (c # cs) old
      then new @ str_replace old new (drop (length old) (c # cs))
      else c # str_replace old new cs)"
  by pat_completeness auto
termination
  by (relation "measure (\<lambda>(old, new, s). length s)") auto

text \<open>The components of a relative path, as \<open>pathlib\<close> splits it: empty components and
  \<open>.\<close> components are dropped.\<close>

fun split_slash :: "string \<Rightarrow> string list" where
  "split_slash [] = [[]]"
| "split_slash (c # cs) =
     (if c = CHR ''/'' then [] # split_slash cs
      else (case split_slash cs of
              [] \<Rightarrow> [[c]]
            | w # ws \<Rightarrow> (c # w) # ws))"

definition path_name :: "string \<Rightarrow> string" where
  "path_name p =
     (case filter (\<lambda>w. w \<noteq> [] \<and> w \<noteq> ''.'') (split_slash p) of
        [] \<Rightarrow> []
      | w # ws \<Rightarrow> last (w # ws))"

text \<open>\<open>Path(p).suffix\<close>: the part of the final component from its last dot, unless that
  dot is the first or the last character of the component.\<close>

definition suffix :: "string \<Rightarrow> string" where
  "suffix p =
     (let r = rev (path_name p);
          after = takeWhile (\<lambda>c. c \<noteq> CHR ''.'') r;
          upto = dropWhile (\<lambda>c. c \<noteq> CHR ''.'') r
      in if length upto > 1 \<and> after \<noteq> [] then CHR ''.'' # rev after else [])"

section \<open>Asset Store: path and category derivation\<close>

text \<open>
  \<open>_save_file\<close>, lines 263 to 287. \<open>parsed.path\<close> is what \<open>urlparse(url).path\<close> returns;
  the function below starts from it. The result is the triple of the local variables
  \<open>subdir\<close>, \<open>ext\<close> and \<open>path\<close> at line 289.
\<close>

definition known_exts :: "string list" where
  "known_exts = [''.html'', ''.css'', ''.js'', ''.png'', ''.jpg'', ''.jpeg'', ''.gif'', ''.svg'']"

record saved_asset =
  subdir :: string
  ext :: string
  rel_path :: string

definition derive_path :: "string \<Rightarrow> string \<times> string" where
  "derive_path parsed_path =
     (let path = lstrip_slash parsed_path;
          e = lower (suffix path)
      in if path = [] then (''index.html'', ''.html'')
         else if e \<notin> set known_exts then (rstrip_slash path @ ''/index.html'', ''.html'')
         else (path, e))"

definition image_ext :: "string \<Rightarrow> string" where
  "image_ext e =
     (case map_of [(''.png'', ''.png''), (''.jpg'', ''.jpg''), (''.jpeg'', ''.jpeg''),
                   (''.gif'', ''.gif''), (''.svg'', ''.svg'')] e of
        Some x \<Rightarrow> x
      | None \<Rightarrow> ''.png'')"

definition classify :: "string \<Rightarrow> string \<Rightarrow> string \<times> string" where
  "classify content_type e =
     (if startswith content_type ''text/html'' then (''html'', ''.html'')
      else if startswith content_type ''text/css'' then (''css'', ''.css'')
      else if startswith content_type ''application/javascript''
              \<or> startswith content_type ''text/javascript'' then (''js'', ''.js'')
      else if startswith content_type ''image/'' then (''images'', image_ext e)
      else (''other'', if e \<noteq> [] then e else ''.bin''))"

definition save_target :: "string \<Rightarrow> string \<Rightarrow> saved_asset" where
  "save_target parsed_path content_type =
     (let (path, e) = derive_path parsed_path;
          (sd, e') = classify content_type e
      in \<lparr>subdir = sd, ext = e', rel_path = path\<rparr>)"

section \<open>The environment and the session state\<close>

text \<open>
  Everything outside \<open>WebsiteProcessor\<close> is a field of the environment \<open>env\<close>: the
  URL library (\<open>urljoin\<close>, which may raise and then yields \<open>None\<close>; the \<open>path\<close> and
  \<open>netloc\<close> of \<open>urlparse\<close>), the HTML and JavaScript libraries, the network, the browser,
  the file system and the thread that may clear the \<open>running\<close> flag. The network, the
  browser, the file system and the flag may answer differently at different moments, so
  each of them is a function of the moment \<open>now\<close>, the number of effects the run has
  performed so far.
\<close>

record response =
  status_code :: int
  location :: "string option"
  content_type_header :: "string option"
  body :: string
  body_bytes :: string

datatype http_outcome =
    Response response
  | RequestError
  | OtherError

datatype browser_outcome =
    Loaded string
  | LaunchFailed
  | PageFailed

datatype probe_outcome =
    ProbeResponse int string
  | ProbeFailed

record element =
  tag :: string
  attrs :: "(string \<times> string) list"
  el_text :: string
  markup :: string

record env =
  urljoin :: "string \<Rightarrow> string \<Rightarrow> string option"
  url_path :: "string \<Rightarrow> string"
  url_netloc :: "string \<Rightarrow> string"
  selector :: "string \<Rightarrow> element list"
  common_words :: "string list \<Rightarrow> string list"
  find_api_urls :: "string \<Rightarrow> string list"
  deobfuscate :: "string \<Rightarrow> string option"
  http_get :: "nat \<Rightarrow> string \<Rightarrow> http_outcome"
  http_get_follow :: "nat \<Rightarrow> string \<Rightarrow> http_outcome"
  http_probe :: "nat \<Rightarrow> string \<Rightarrow> probe_outcome"
  browser_load :: "nat \<Rightarrow> string \<Rightarrow> browser_outcome"
  file_write :: "nat \<Rightarrow> string \<Rightarrow> bool"
  running_at :: "nat \<Rightarrow> bool"

text \<open>The settings of a \<open>WebsiteProcessor\<close>. \<open>filter_url u\<close> is what \<open>_filter_url(u)\<close>
  returns for the \<open>include\<close> and \<open>exclude\<close> patterns of the run; \<open>use_browser\<close> is the mode
  after \<open>download_website\<close> has started the browser or fallen back to HTTP.\<close>

record config =
  root_domain :: string
  crawl_depth :: int
  retries :: int
  use_browser :: bool
  filter_url :: "string \<Rightarrow> bool"

text \<open>
  The effects of a run, in the order they happen. \<open>Crawling u d\<close> is the log line of
  \<open>_crawl_page\<close> (line 145), directly followed by the page's fetch (line 147);
  \<open>AssetFetch u\<close> marks the entry of the retry loop of \<open>_download_asset\<close> (line 227);
  \<open>HttpGet u a\<close> and \<open>AssetGet u a\<close> are the requests of lines 194 and 229, with the
  value of \<open>attempt\<close>; \<open>Sleep d\<close> is \<open>asyncio.sleep(d)\<close>.
\<close>

datatype event =
    VisitedAdd string
  | SitemapAppend string
  | Crawling string int
  | AssetFetch string
  | HttpGet string nat
  | AssetGet string nat
  | ApiProbe string
  | Sleep nat
  | BrowserLaunch
  | BrowserClose
  | FileWrite string

record endpoint =
  ep_url :: string
  ep_status :: int
  ep_response :: string

record analysis_report =
  keyword_list :: "string list"
  metadata :: "string \<rightharpoonup> string"
  hidden_elements :: "string list"
  inline_scripts :: "string list"
  api_endpoints :: "endpoint list"
  frontend_frameworks :: "string list"

record session =
  visited_urls :: "string set"
  redirects :: "string \<rightharpoonup> string"
  sitemap :: "string list"
  analysis :: analysis_report
  files :: "string \<rightharpoonup> string"
  trace :: "event list"

definition initial_session :: session where
  "initial_session =
     \<lparr>visited_urls = {}, redirects = Map.empty, sitemap = [],
      analysis = \<lparr>keyword_list = [], metadata = Map.empty, hidden_elements = [],
                  inline_scripts = [], api_endpoints = [], frontend_frameworks = []\<rparr>,
      files = Map.empty, trace = []\<rparr>"

definition now :: "session \<Rightarrow> nat" where
  "now s = length (trace s)"

definition emit :: "event \<Rightarrow> session \<Rightarrow> session" where
  "emit e s = s\<lparr>trace := trace s @ [e]\<rparr>"

definition running :: "env \<Rightarrow> session \<Rightarrow> bool" where
  "running E s = running_at E (now s)"

section \<open>URL Rewriter\<close>

text \<open>
  \<open>_rewrite_urls\<close>, lines 310 to 325. \<open>re.sub\<close> with the pattern
  \<open>(?:href|src)=q([^q]*)q\<close>, for a quote character \<open>q\<close>, scans the text from the left;
  \<open>match_attr\<close> is a match of the pattern at the head of the text, and yields group 0
  (the whole match) and group 1 (the value).
\<close>

datatype error = IndexError | ValueError

fun take_until :: "char \<Rightarrow> string \<Rightarrow> string option" where
  "take_until q [] = None"
| "take_until q (c # cs) =
     (if c = q then Some [] else map_option ((#) c) (take_until q cs))"

definition match_attr :: "char \<Rightarrow> string \<Rightarrow> (string \<times> string) option" where
  "match_attr q s =
     (let name = (if startswith s ''href'' then Some ''href''
                  else if startswith s ''src'' then Some ''src'' else None)
      in case name of
           None \<Rightarrow> None
         | Some nm \<Rightarrow>
             (if startswith (drop (length nm) s) [CHR ''='', q]
              then (case take_until q (drop (length nm + 2) s) of
                      None \<Rightarrow> None
                    | Some v \<Rightarrow> Some (nm @ [CHR ''='', q] @ v @ [q], v))
              else None))"

text \<open>\<open>replace_url\<close>, lines 313 to 318. The pattern has one group only, so
  \<open>match.group(2)\<close>, evaluated when group 1 is empty, raises \<open>IndexError\<close>.\<close>

definition replace_url :: "env \<Rightarrow> string \<Rightarrow> string \<Rightarrow> string \<Rightarrow> error + string" where
  "replace_url E base_url group0 group1 =
     (if group1 = [] then Inl IndexError
      else (case urljoin E base_url group1 of
              None \<Rightarrow> Inl ValueError
            | Some abs_url \<Rightarrow>
                (let p = lstrip_slash (url_path E abs_url);
                     rel_path = (if p \<noteq> [] then p else ''index.html'')
                 in Inr (str_replace group1 (CHR ''/'' # rel_path) group0))))"

text \<open>\<open>re.sub(pattern, repl, content)\<close>: \<open>k\<close> is the number of characters of the last
  match that are still to be passed over.\<close>

fun re_sub :: "(string \<Rightarrow> string \<Rightarrow> error + string) \<Rightarrow> char \<Rightarrow> nat \<Rightarrow> string \<Rightarrow> error + string" where
  "re_sub repl q k [] = Inr []"
| "re_sub repl q k (c # cs) =
     (if k > 0 then re_sub repl q (k - 1) cs
      else (case match_attr q (c # cs) of
              None \<Rightarrow>
                (case re_sub repl q 0 cs of
                   Inl e \<Rightarrow> Inl e
                 | Inr t \<Rightarrow> Inr (c # t))
            | Some (group0, group1) \<Rightarrow>
                (case repl group0 group1 of
                   Inl e \<Rightarrow> Inl e
                 | Inr r \<Rightarrow>
                     (case re_sub repl q (length group0 - 1) cs of
                        Inl e \<Rightarrow> Inl e
                      | Inr t \<Rightarrow> Inr (r @ t)))))"

definition rewrite_urls :: "env \<Rightarrow> string \<Rightarrow> string \<Rightarrow> string" where
  "rewrite_urls E content base_url =
     (case re_sub (replace_url E base_url) dquote 0 content of
        Inl e \<Rightarrow> content
      | Inr content1 \<Rightarrow>
          (case re_sub (replace_url E base_url) squote 0 content1 of
             Inl e \<Rightarrow> content1
           | Inr content2 \<Rightarrow> content2))"

section \<open>Asset Store: writing the two copies\<close>

text \<open>\<open>_save_file\<close>, lines 289 to 308; paths are relative to the run directory. A write
  that fails raises inside the \<open>try\<close>, and the rest of the function is skipped.\<close>

definition save_file :: "env \<Rightarrow> string \<Rightarrow> string \<Rightarrow> bool \<Rightarrow> string \<Rightarrow> session \<Rightarrow> session" where
  "save_file E url content is_binary content_type s =
     (let t = save_target (url_path E url) content_type;
          input_path = url_netloc E url @ ''/'' @ subdir t @ ''/'' @ rel_path t;
          src_path = ''src/'' @ rel_path t;
          content_to_save = (if \<not> is_binary then rewrite_urls E content url else content)
      in if \<not> file_write E (now s) input_path then s
         else (let s1 = emit (FileWrite input_path)
                          (s\<lparr>files := (files s)(input_path \<mapsto> content_to_save)\<rparr>)
               in if \<not> file_write E (now s1) src_path then s1
                  else emit (FileWrite src_path)
                         (s1\<lparr>files := (files s1)(src_path \<mapsto> content_to_save)\<rparr>)))"

section \<open>Content Analyzer\<close>

text \<open>
  \<open>Selector(text=content)\<close> is the field \<open>selector\<close> of the environment: the elements of
  the document in document order, each with its attributes in source order. The XPath
  queries of \<open>_crawl_page\<close> and \<open>_analyze_content\<close> are written out over that list;
  \<open>.get()\<close> is the first result of a query, if any.
\<close>

definition has_attr :: "string \<Rightarrow> element \<Rightarrow> bool" where
  "has_attr k e = (k \<in> set (map fst (attrs e)))"

definition attr_values :: "(element \<Rightarrow> bool) \<Rightarrow> (string \<Rightarrow> bool) \<Rightarrow> element list \<Rightarrow> string list" where
  "attr_values sel key doc =
     concat (map (\<lambda>e. map snd (filter (\<lambda>kv. key (fst kv)) (attrs e))) (filter sel doc))"

definition xpath_get :: "string list \<Rightarrow> string option" where
  "xpath_get results = (case results of [] \<Rightarrow> None | r # rs \<Rightarrow> Some r)"

definition page_assets :: "element list \<Rightarrow> string list" where
  "page_assets doc =
     attr_values (\<lambda>e. tag e = ''img'') (\<lambda>k. k = ''src'') doc
     @ attr_values (\<lambda>e. tag e = ''link'' \<and> (''rel'', ''stylesheet'') \<in> set (attrs e))
         (\<lambda>k. k = ''href'') doc
     @ attr_values (\<lambda>e. tag e = ''script'') (\<lambda>k. k = ''src'') doc"

definition page_links :: "element list \<Rightarrow> string list" where
  "page_links doc = attr_values (\<lambda>e. tag e = ''a'') (\<lambda>k. k = ''href'') doc"

definition meta_elements :: "element list \<Rightarrow> element list" where
  "meta_elements doc =
     filter (\<lambda>e. tag e = ''meta'' \<and> (has_attr ''name'' e \<or> has_attr ''property'' e)) doc"

text \<open>Lines 330 to 335. The two queries inside the loop are made on \<open>selector\<close>, the whole
  document, not on the loop variable \<open>m\<close>.\<close>

definition record_meta :: "element list \<Rightarrow> element \<Rightarrow> (string \<rightharpoonup> string) \<Rightarrow> (string \<rightharpoonup> string)" where
  "record_meta doc m md =
     (let name = xpath_get (attr_values (\<lambda>e. True) (\<lambda>k. k = ''name'' \<or> k = ''property'') doc);
          content_value = xpath_get (attr_values (\<lambda>e. True) (\<lambda>k. k = ''content'') doc)
      in case (name, content_value) of
           (Some n, Some v) \<Rightarrow> if n \<noteq> [] \<and> v \<noteq> [] then md(n \<mapsto> v) else md
         | _ \<Rightarrow> md)"

definition style_of :: "element \<Rightarrow> string" where
  "style_of e = (case map_of (attrs e) ''style'' of None \<Rightarrow> [] | Some v \<Rightarrow> v)"

definition detected_frameworks :: "string \<Rightarrow> string list" where
  "detected_frameworks content =
     (if contains ''react'' (lower content) then [''React''] else [])
     @ (if contains ''vue'' (lower content) then [''Vue''] else [])
     @ (if contains ''angular'' (lower content) then [''Angular''] else [])"

text \<open>\<open>_analyze_content\<close>, lines 327 to 355. \<open>common_words\<close> is the list of the words of
  \<open>Counter(words).most_common(20)\<close>, for the text nodes of the document.\<close>

definition analyze_content :: "env \<Rightarrow> element list \<Rightarrow> string \<Rightarrow> string \<Rightarrow> session \<Rightarrow> session" where
  "analyze_content E doc content url s =
     (let a = analysis s;
          a1 = a\<lparr>metadata := fold (record_meta doc) (meta_elements doc) (metadata a)\<rparr>;
          a2 = a1\<lparr>keyword_list := keyword_list a1
                  @ filter (\<lambda>w. length w > 3) (common_words E (map el_text doc))\<rparr>;
          a3 = a2\<lparr>hidden_elements := hidden_elements a2
                  @ map markup (filter (\<lambda>e. contains ''display:none'' (style_of e)
                                          \<or> contains ''visibility:hidden'' (style_of e)) doc)\<rparr>;
          a4 = a3\<lparr>inline_scripts := inline_scripts a3
                  @ filter (\<lambda>t. t \<noteq> [])
                      (map el_text (filter (\<lambda>e. tag e = ''script'' \<and> \<not> has_attr ''src'' e) doc))\<rparr>;
          a5 = a4\<lparr>frontend_frameworks := frontend_frameworks a4 @ detected_frameworks content\<rparr>
      in s\<lparr>analysis := a5\<rparr>)"

text \<open>\<open>_analyze_js\<close>, lines 357 to 382. The result is the session and the value of the
  local variable \<open>content\<close> when the function ends; the caller has no access to the
  latter. \<open>find_api_urls\<close> is the \<open>re.findall\<close> of line 360, \<open>deobfuscate\<close> lines 373 to
  378 (\<open>None\<close> when the parse raises).\<close>

fun probe_all :: "env \<Rightarrow> string list \<Rightarrow> session \<Rightarrow> session" where
  "probe_all E [] s = s"
| "probe_all E (api_url # us) s =
     (let s1 = emit (ApiProbe api_url) s
      in case http_probe E (now s) api_url of
           ProbeFailed \<Rightarrow> probe_all E us s1
         | ProbeResponse st txt \<Rightarrow>
             probe_all E us
               (s1\<lparr>analysis := (analysis s1)\<lparr>api_endpoints := api_endpoints (analysis s1)
                  @ [\<lparr>ep_url = api_url, ep_status = st,
                      ep_response = (if st = 200 then take 200 txt else [])\<rparr>]\<rparr>\<rparr>))"

definition analyze_js :: "env \<Rightarrow> string \<Rightarrow> string \<Rightarrow> session \<Rightarrow> session \<times> string" where
  "analyze_js E content url s =
     (probe_all E (find_api_urls E content) s,
      (case deobfuscate E content of None \<Rightarrow> content | Some renamed \<Rightarrow> renamed))"

section \<open>Fetcher\<close>

text \<open>
  \<open>_fetch_with_redirects\<close>, lines 177 to 217. \<open>try_fetch\<close> is the body of the \<open>try\<close>
  (lines 186 to 207): it returns, asks for the next hop of a redirect, or raises
  \<open>httpx.RequestError\<close> or another exception. The function itself adds the two checks
  before the \<open>try\<close> and the two handlers. A chain of redirects has no bound in the source;
  the first argument after the configuration bounds the number of nested calls, and
  \<open>None\<close> says that the bound was reached before the fetch returned.
\<close>

datatype attempt_result =
    Return "string \<times> string option"
  | Redirect string
  | RequestFailed
  | Unexpected

definition is_redirect :: "int \<Rightarrow> bool" where
  "is_redirect st = (st \<in> {301, 302, 303, 307, 308})"

definition try_fetch :: "env \<Rightarrow> config \<Rightarrow> string \<Rightarrow> nat \<Rightarrow> session \<Rightarrow> attempt_result \<times> session" where
  "try_fetch E C url attempt s =
     (if use_browser C then
        (case browser_load E (now s) url of
           LaunchFailed \<Rightarrow> (Unexpected, s)
         | PageFailed \<Rightarrow> (Unexpected, emit BrowserLaunch s)
         | Loaded content \<Rightarrow> (Return (url, Some content), emit BrowserClose (emit BrowserLaunch s)))
      else
        (let s1 = emit (HttpGet url attempt) s
         in case http_get E (now s) url of
              RequestError \<Rightarrow> (RequestFailed, s1)
            | OtherError \<Rightarrow> (Unexpected, s1)
            | Response r \<Rightarrow>
                if is_redirect (status_code r) then
                  (case location r of
                     None \<Rightarrow> (Return (url, None), s1)
                   | Some next_url \<Rightarrow>
                       if next_url = [] then (Return (url, None), s1)
                       else (case urljoin E url next_url of
                               None \<Rightarrow> (Unexpected, s1)
                             | Some absolute_next_url \<Rightarrow>
                                 (Redirect absolute_next_url,
                                  s1\<lparr>redirects := (redirects s1)(url \<mapsto> absolute_next_url)\<rparr>)))
                else if status_code r \<noteq> 200 then (Return (url, None), s1)
                else (Return (url, Some (body r)), s1)))"

fun fetch_with_redirects ::
  "env \<Rightarrow> config \<Rightarrow> nat \<Rightarrow> string \<Rightarrow> nat \<Rightarrow> session \<Rightarrow> ((string \<times> string option) \<times> session) option" where
  "fetch_with_redirects E C 0 url attempt s = None"
| "fetch_with_redirects E C (Suc n) url attempt s =
     (if \<not> running E s then Some ((url, None), s)
      else if int attempt > retries C then Some ((url, None), s)
      else (case try_fetch E C url attempt s of
              (Return r, s1) \<Rightarrow> Some (r, s1)
            | (Redirect next_url, s1) \<Rightarrow> fetch_with_redirects E C n next_url attempt s1
            | (RequestFailed, s1) \<Rightarrow>
                fetch_with_redirects E C n url (attempt + 1) (emit (Sleep (2 ^ attempt)) s1)
            | (Unexpected, s1) \<Rightarrow>
                if int attempt < retries C
                then fetch_with_redirects E C n url (attempt + 1) (emit (Sleep (2 ^ attempt)) s1)
                else Some ((url, None), s1)))"

section \<open>Crawl Scheduler\<close>

text \<open>\<open>_download_asset\<close>, lines 219 to 246: \<open>asset_attempts\<close> is the \<open>for\<close> loop over
  \<open>range(1, self.retries + 1)\<close>, \<open>download_asset\<close> the function.\<close>

fun asset_attempts :: "env \<Rightarrow> config \<Rightarrow> string \<Rightarrow> nat list \<Rightarrow> session \<Rightarrow> session" where
  "asset_attempts E C url [] s = s"
| "asset_attempts E C url (attempt # rest) s =
     (let s1 = emit (AssetGet url attempt) s
      in case http_get_follow E (now s) url of
           Response r \<Rightarrow>
             if status_code r = 200 then
               (let content_type = lower (case content_type_header r of None \<Rightarrow> [] | Some c \<Rightarrow> c);
                    is_binary = (\<not> contains ''text'' content_type \<and> \<not> contains ''html'' content_type);
                    content = (if is_binary then body_bytes r else body r);
                    s2 = save_file E url content is_binary content_type s1
                in if contains ''javascript'' content_type \<and> \<not> is_binary
                   then fst (analyze_js E content url s2)
                   else s2)
             else asset_attempts E C url rest s1
         | RequestError \<Rightarrow>
             asset_attempts E C url rest
               (if int attempt < retries C then emit (Sleep (2 ^ attempt)) s1 else s1)
         | OtherError \<Rightarrow> s1)"

definition download_asset :: "env \<Rightarrow> config \<Rightarrow> string \<Rightarrow> session \<Rightarrow> session" where
  "download_asset E C url s =
     (if \<not> running E s then s
      else if url \<in> visited_urls s \<or> \<not> filter_url C url then s
      else asset_attempts E C url (map nat [1..retries C])
             (emit (AssetFetch url)
                (emit (VisitedAdd url) (s\<lparr>visited_urls := insert url (visited_urls s)\<rparr>))))"

text \<open>
  \<open>_crawl_page\<close>, lines 137 to 175; \<open>crawl_links\<close> is the loop of lines 168 to 172. The
  asset downloads that \<open>asyncio.gather\<close> runs are taken one after the other, in the order
  of the list: each of them tests and extends \<open>visited_urls\<close> before its first \<open>await\<close>. A
  \<open>urljoin\<close> that raises ends the processing of the page (line 174). The number after the
  configuration bounds the nesting of the calls, as for the fetcher.
\<close>

fun crawl_page :: "env \<Rightarrow> config \<Rightarrow> nat \<Rightarrow> string \<Rightarrow> int \<Rightarrow> session \<Rightarrow> session option"
  and crawl_links :: "env \<Rightarrow> config \<Rightarrow> nat \<Rightarrow> string \<Rightarrow> string list \<Rightarrow> int \<Rightarrow> session \<Rightarrow> session option" where
  "crawl_page E C 0 url depth s = None"
| "crawl_page E C (Suc n) url depth s =
     (if \<not> running E s \<or> depth > crawl_depth C \<or> url \<in> visited_urls s then Some s
      else if \<not> filter_url C url then Some s
      else (let s1 = emit (Crawling url depth) (emit (SitemapAppend url) (emit (VisitedAdd url)
                       (s\<lparr>visited_urls := insert url (visited_urls s),
                          sitemap := sitemap s @ [url]\<rparr>)))
            in case fetch_with_redirects E C n url 1 s1 of
                 None \<Rightarrow> None
               | Some ((final_url, content), s2) \<Rightarrow>
                   (case content of
                      None \<Rightarrow> Some s2
                    | Some c \<Rightarrow>
                        if c = [] then Some s2
                        else (let doc = selector E c;
                                  s3 = save_file E final_url c False ''text/html'' s2;
                                  s4 = analyze_content E doc c final_url s3
                              in case those (map (urljoin E final_url) (page_assets doc)) of
                                   None \<Rightarrow> Some s4
                                 | Some absolute_urls \<Rightarrow>
                                     crawl_links E C n final_url (page_links doc) depth
                                       (fold (download_asset E C) absolute_urls s4)))))"
| "crawl_links E C n final_url [] depth s = Some s"
| "crawl_links E C n final_url (link # links) depth s =
     (case urljoin E final_url link of
        None \<Rightarrow> Some s
      | Some absolute_url \<Rightarrow>
          (case (if url_netloc E absolute_url = root_domain C
                 then crawl_page E C n absolute_url (depth + 1) s
                 else Some s) of
             None \<Rightarrow> None
           | Some s' \<Rightarrow> crawl_links E C n final_url links depth s'))"

text \<open>\<open>download_website\<close>, line 121: the crawl of the root URL at depth 0, from the
  session that \<open>__init__\<close> builds.\<close>

definition crawl :: "env \<Rightarrow> config \<Rightarrow> nat \<Rightarrow> string \<Rightarrow> session option" where
  "crawl E C n url = crawl_page E C n url 0 initial_session"

section \<open>Properties of traces\<close>

text \<open>The events that a run has added to the trace of a session.\<close>

definition new_events :: "session \<Rightarrow> session \<Rightarrow> event list" where
  "new_events s s' = drop (length (trace s)) (trace s')"

text \<open>
  Deduplication, read off a trace from the left: \<open>V\<close> is the set of the URLs added to
  \<open>visited_urls\<close> so far, \<open>F\<close> the set of the URLs for which the scheduler has started a
  fetch (a page fetch, announced by \<open>Crawling\<close>, or an asset download), \<open>M\<close> the set of the
  URLs appended to the sitemap. A URL is added only when it is not in \<open>V\<close>, a fetch is
  started only for a URL that is in \<open>V\<close> and not in \<open>F\<close>, a URL is appended to the
  sitemap only when it is not in \<open>M\<close>. The requests inside one fetch (retries, redirect
  hops) are not events of the scheduler and are passed over.
\<close>

fun dedup_ok :: "string set \<Rightarrow> string set \<Rightarrow> string set \<Rightarrow> event list \<Rightarrow> bool" where
  "dedup_ok V F M [] = True"
| "dedup_ok V F M (e # evs) =
     (case e of
        VisitedAdd u \<Rightarrow> u \<notin> V \<and> dedup_ok (insert u V) F M evs
      | Crawling u d \<Rightarrow> u \<in> V \<and> u \<notin> F \<and> dedup_ok V (insert u F) M evs
      | AssetFetch u \<Rightarrow> u \<in> V \<and> u \<notin> F \<and> dedup_ok V (insert u F) M evs
      | SitemapAppend u \<Rightarrow> u \<notin> M \<and> dedup_ok V F (insert u M) evs
      | _ \<Rightarrow> dedup_ok V F M evs)"

text \<open>The events of the scheduler, and the URLs that a trace adds to \<open>V\<close>, \<open>F\<close> and \<open>M\<close>.\<close>

definition scheduler_event :: "event \<Rightarrow> bool" where
  "scheduler_event e =
     (case e of
        VisitedAdd u \<Rightarrow> True
      | Crawling u d \<Rightarrow> True
      | AssetFetch u \<Rightarrow> True
      | SitemapAppend u \<Rightarrow> True
      | _ \<Rightarrow> False)"

definition added :: "event list \<Rightarrow> string list" where
  "added evs = concat (map (\<lambda>e. case e of VisitedAdd u \<Rightarrow> [u] | _ \<Rightarrow> []) evs)"

definition started :: "event list \<Rightarrow> string list" where
  "started evs =
     concat (map (\<lambda>e. case e of Crawling u d \<Rightarrow> [u] | AssetFetch u \<Rightarrow> [u] | _ \<Rightarrow> []) evs)"

definition appended :: "event list \<Rightarrow> string list" where
  "appended evs = concat (map (\<lambda>e. case e of SitemapAppend u \<Rightarrow> [u] | _ \<Rightarrow> []) evs)"

text \<open>The depths of the page fetches of a trace.\<close>

definition crawl_depths :: "event list \<Rightarrow> int list" where
  "crawl_depths evs = concat (map (\<lambda>e. case e of Crawling u d \<Rightarrow> [d] | _ \<Rightarrow> []) evs)"




section \<open>Example environments\<close>

text \<open>
  A small instance of the environment, for concrete runs: URLs of the form
  \<open>http://host/path\<close>, references that are absolute, root-relative or relative to the
  directory of the base, a network that answers by URL, writes that succeed and a
  \<open>running\<close> flag that stays set.
\<close>

definition simple_netloc :: "string \<Rightarrow> string" where
  "simple_netloc u = takeWhile (\<lambda>c. c \<noteq> CHR ''/'') (drop 7 u)"

definition simple_path :: "string \<Rightarrow> string" where
  "simple_path u = dropWhile (\<lambda>c. c \<noteq> CHR ''/'') (drop 7 u)"

definition simple_urljoin :: "string \<Rightarrow> string \<Rightarrow> string option" where
  "simple_urljoin base u =
     (if startswith u ''http://'' then Some u
      else if startswith u ''/'' then Some (''http://'' @ simple_netloc base @ u)
      else Some (rev (dropWhile (\<lambda>c. c \<noteq> CHR ''/'') (rev base)) @ u))"

definition ok_response :: "string \<Rightarrow> string \<Rightarrow> response" where
  "ok_response ct b =
     \<lparr>status_code = 200, location = None, content_type_header = Some ct, body = b,
      body_bytes = b\<rparr>"

definition redirect_response :: "string \<Rightarrow> response" where
  "redirect_response l =
     \<lparr>status_code = 302, location = Some l, content_type_header = None, body = [],
      body_bytes = []\<rparr>"

definition not_found_response :: response where
  "not_found_response =
     \<lparr>status_code = 404, location = None, content_type_header = None, body = [],
      body_bytes = []\<rparr>"

definition offline_env :: env where
  "offline_env =
     \<lparr>urljoin = simple_urljoin, url_path = simple_path, url_netloc = simple_netloc,
      selector = (\<lambda>c. []), common_words = (\<lambda>ws. []), find_api_urls = (\<lambda>c. []),
      deobfuscate = (\<lambda>c. None), http_get = (\<lambda>t u. RequestError),
      http_get_follow = (\<lambda>t u. RequestError), http_probe = (\<lambda>t u. ProbeFailed),
      browser_load = (\<lambda>t u. PageFailed), file_write = (\<lambda>t p. True),
      running_at = (\<lambda>t. True)\<rparr>"

definition default_config :: config where
  "default_config =
     \<lparr>root_domain = ''site'', crawl_depth = 2, retries = 3, use_browser = False,
      filter_url = (\<lambda>u. True)\<rparr>"

text \<open>A site of three pages: the root links to \<open>/b\<close> and to itself and shows the image
  \<open>/i.png\<close> twice; \<open>/b\<close> links to the root and to \<open>/c\<close>; \<open>/c\<close> has no links.\<close>

definition link_to :: "string \<Rightarrow> element" where
  "link_to h = \<lparr>tag = ''a'', attrs = [(''href'', h)], el_text = [], markup = []\<rparr>"

definition image_of :: "string \<Rightarrow> element" where
  "image_of h = \<lparr>tag = ''img'', attrs = [(''src'', h)], el_text = [], markup = []\<rparr>"

definition site_selector :: "string \<Rightarrow> element list" where
  "site_selector c =
     (if c = ''ROOT'' then [link_to ''/b'', link_to ''/'', image_of ''/i.png'', image_of ''/i.png'']
      else if c = ''B'' then [link_to ''/'', link_to ''/c'']
      else [])"

definition site_get :: "string \<Rightarrow> http_outcome" where
  "site_get u =
     (if u = ''http://site/'' then Response (ok_response ''text/html'' ''ROOT'')
      else if u = ''http://site/b'' then Response (ok_response ''text/html'' ''B'')
      else if u = ''http://site/c'' then Response (ok_response ''text/html'' ''C'')
      else if u = ''http://site/i.png'' then Response (ok_response ''image/png'' ''PNG'')
      else Response not_found_response)"

definition site_env :: env where
  "site_env = offline_env\<lparr>selector := site_selector, http_get := (\<lambda>t. site_get),
                 http_get_follow := (\<lambda>t. site_get)\<rparr>"

definition depth1_config :: config where
  "depth1_config = default_config\<lparr>crawl_depth := 1\<rparr>"

text \<open>The trace that a fetch from the initial session leaves, and its result.\<close>

definition fetch_events :: "env \<Rightarrow> config \<Rightarrow> nat \<Rightarrow> string \<Rightarrow> event list" where
  "fetch_events E C n url =
     (case fetch_with_redirects E C n url 1 initial_session of
        None \<Rightarrow> []
      | Some (r, s) \<Rightarrow> trace s)"

definition browser_config :: config where
  "browser_config = default_config\<lparr>use_browser := True\<rparr>"

text \<open>A thread that clears the \<open>running\<close> flag at moment 3.\<close>

definition stopping_env :: env where
  "stopping_env = offline_env\<lparr>running_at := (\<lambda>t. t < 3)\<rparr>"

text \<open>A page with an empty \<open>href\<close> before an image, a document with two \<open>meta\<close>
  elements, and a script that builds markup.\<close>

definition page_with_empty_href :: string where
  "page_with_empty_href =
     ''<a href='' @ [dquote, dquote] @ ''><img src='' @ [dquote] @ ''a.png'' @ [dquote] @ ''>''"

definition two_meta_doc :: "element list" where
  "two_meta_doc =
     [\<lparr>tag = ''meta'', attrs = [(''name'', ''description''), (''content'', ''D'')],
       el_text = [], markup = []\<rparr>,
      \<lparr>tag = ''meta'', attrs = [(''name'', ''author''), (''content'', ''A'')],
       el_text = [], markup = []\<rparr>]"

definition js_body :: string where
  "js_body = ''x=<img src='' @ [dquote] @ ''a.png'' @ [dquote] @ ''>''"

definition js_env :: env where
  "js_env = offline_env\<lparr>http_get_follow :=
               (\<lambda>t u. Response (ok_response ''text/javascript'' js_body))\<rparr>"

text \<open>
  What a part of a run adds to the trace: \<open>appends P s s'\<close> says that the trace of \<open>s'\<close>
  is the trace of \<open>s\<close> followed by events that all satisfy \<open>P\<close>. A part of a run is
  \<open>quiet\<close> when it leaves \<open>visited_urls\<close> and the sitemap alone and adds no event of the
  scheduler to the trace.
\<close>

definition appends :: "(event \<Rightarrow> bool) \<Rightarrow> session \<Rightarrow> session \<Rightarrow> bool" where
  "appends P s s' = (\<exists>evs. trace s' = trace s @ evs \<and> list_all P evs)"

definition quiet :: "session \<Rightarrow> session \<Rightarrow> bool" where
  "quiet s s' =
     (visited_urls s' = visited_urls s \<and> sitemap s' = sitemap s
      \<and> appends (\<lambda>e. \<not> scheduler_event e) s s')"

definition io_event :: "event \<Rightarrow> bool" where
  "io_event e = (case e of FileWrite p \<Rightarrow> True | ApiProbe u \<Rightarrow> True | _ \<Rightarrow> False)"

text \<open>The state that deduplication rests on: the trace passes \<open>dedup_ok\<close>, \<open>visited_urls\<close>
  holds the URLs that the trace added, and the sitemap holds the URLs that it appended,
  all of them visited.\<close>

definition dedup_inv :: "session \<Rightarrow> bool" where
  "dedup_inv s =
     (dedup_ok {} {} {} (trace s)
      \<and> visited_urls s = set (added (trace s))
      \<and> sitemap s = appended (trace s)
      \<and> set (appended (trace s)) \<subseteq> visited_urls s)"

definition depth_in :: "int \<Rightarrow> int \<Rightarrow> event \<Rightarrow> bool" where
  "depth_in lo hi e = (case e of Crawling u k \<Rightarrow> lo \<le> k \<and> k \<le> hi | _ \<Rightarrow> True)"

definition chain_get :: "string \<Rightarrow> http_outcome" where
  "chain_get u =
     (if u = ''http://site/a'' then Response (redirect_response ''/b'')
      else if u = ''http://site/b'' then Response (redirect_response ''http://site/c'')
      else if u = ''http://site/c'' then Response (ok_response ''text/html'' ''C'')
      else Response not_found_response)"

definition chain_env :: env where
  "chain_env = offline_env\<lparr>http_get := (\<lambda>t. chain_get)\<rparr>"

definition bare_redirect_env :: env where
  "bare_redirect_env =
     offline_env\<lparr>http_get := (\<lambda>t u. Response (not_found_response\<lparr>status_code := 301\<rparr>))\<rparr>"

definition loaded_env :: env where
  "loaded_env = offline_env\<lparr>browser_load := (\<lambda>t u. Loaded ''PAGE'')\<rparr>"

text \<open>The two halves of \<open>_crawl_page\<close> after its guards: \<open>page_entry\<close> is the session
  after lines 143 to 145, \<open>page_body\<close> the \<open>try\<close> block of lines 151 to 172.\<close>

definition page_entry :: "string \<Rightarrow> int \<Rightarrow> session \<Rightarrow> session" where
  "page_entry url depth s =
     emit (Crawling url depth) (emit (SitemapAppend url) (emit (VisitedAdd url)
       (s\<lparr>visited_urls := insert url (visited_urls s), sitemap := sitemap s @ [url]\<rparr>)))"

definition page_body :: "env \<Rightarrow> config \<Rightarrow> nat \<Rightarrow> string \<Rightarrow> string \<Rightarrow> int \<Rightarrow> session \<Rightarrow> session option" where
  "page_body E C n final_url c depth s2 =
     (let doc = selector E c;
          s3 = save_file E final_url c False ''text/html'' s2;
          s4 = analyze_content E doc c final_url s3
      in case those (map (urljoin E final_url) (page_assets doc)) of
           None \<Rightarrow> Some s4
         | Some absolute_urls \<Rightarrow>
             crawl_links E C n final_url (page_links doc) depth
               (fold (download_asset E C) absolute_urls s4))"

text \<open>
  The trace of a fetch in headless-browser mode, read from the left; \<open>a\<close> is the current
  value of \<open>attempt\<close>. Each attempt adds at most one launch. A launch is followed by the
  close of that browser, which ends the fetch, or by nothing more, or by the sleep of
  a failed attempt; a sleep lasts \<open>2 ^ a\<close>, stands only when \<open>a\<close> is below the retry
  budget \<open>R\<close>, and is followed by attempt \<open>a + 1\<close>. No other event occurs.
\<close>

fun browser_trace_ok :: "int \<Rightarrow> nat \<Rightarrow> bool \<Rightarrow> event list \<Rightarrow> bool" where
  "browser_trace_ok R a launched [] = True"
| "browser_trace_ok R a launched (e # evs) =
     (case e of
        BrowserLaunch \<Rightarrow> \<not> launched \<and> browser_trace_ok R a True evs
      | BrowserClose \<Rightarrow> launched \<and> evs = []
      | Sleep d \<Rightarrow> d = 2 ^ a \<and> int a < R \<and> browser_trace_ok R (a + 1) False evs
      | _ \<Rightarrow> False)"

definition launch_failing_env :: env where
  "launch_failing_env = offline_env\<lparr>browser_load := (\<lambda>t u. LaunchFailed)\<rparr>"

section \<open>Evaluation of concrete runs\<close>

lemmas env_defs = offline_env_def default_config_def simple_urljoin_def simple_netloc_def
  simple_path_def initial_session_def running_def now_def emit_def

lemmas str_defs = startswith_def lstrip_slash_def rstrip_slash_def lower_def lower_char_def
  suffix_def path_name_def known_exts_def dquote_def squote_def

section \<open>Asset Store: the extension of an unclassified resource\<close>

text \<open>The extension that the first step of the derivation leaves is never empty, so the
  resolved extension is never \<open>.bin\<close>.\<close>

lemma derive_path_ext: "snd (derive_path p) \<in> set known_exts"
  by (simp add: derive_path_def Let_def known_exts_def)

lemma save_target_never_bin: "ext (save_target p ct) \<noteq> ''.bin''"
proof -
  obtain path e where d: "derive_path p = (path, e)" by (cases "derive_path p")
  with derive_path_ext [of p] have "e \<in> set known_exts" by simp
  then have "snd (classify ct e) \<noteq> ''.bin''"
    by (auto simp: classify_def image_ext_def known_exts_def)
  with d show ?thesis
    by (auto simp: save_target_def split: prod.splits)
qed

text \<open>
  Claim C5. The derivation of \<open>_save_file\<close> first strips the leading slashes of the URL
  path and appends \<open>/index.html\<close> to a path without a recognised extension, then lets
  the content type choose the category and the extension. The claim ends with: a URL
  with an unknown content type and no recognisable extension is saved under \<open>other/\<close> as
  \<open>.bin\<close>. On the path \<open>/data\<close> with the content type \<open>application/octet-stream\<close> the
  code reaches the category \<open>other\<close> with the extension \<open>.html\<close> and the path
  \<open>data/index.html\<close>: the first step has already set \<open>ext\<close> to \<open>.html\<close>, so the default
  \<open>.bin\<close> of line 287 cannot apply.
\<close>

theorem save_target_unknown_type:
  "save_target ''/data'' ''application/octet-stream'' =
     \<lparr>subdir = ''other'', ext = ''.html'', rel_path = ''data/index.html''\<rparr>"
  by (simp add: save_target_def derive_path_def classify_def str_defs)

section \<open>URL Rewriter: an empty attribute value\<close>

text \<open>
  Claim C8. \<open>rewrite\<close> is to replace the value of every \<open>href\<close> and \<open>src\<close> attribute by a
  root-relative path and leave the rest of the text unchanged. On a page whose first
  link has an empty \<open>href\<close>, \<open>replace_url\<close> evaluates \<open>match.group(2)\<close>, a group that the
  pattern does not have; the \<open>IndexError\<close> is caught at line 323 and the text is returned
  as it was, the relative \<open>src\<close> of the image that follows included.
\<close>

theorem rewrite_urls_empty_href:
  "rewrite_urls offline_env page_with_empty_href ''http://site/d/p.html'' = page_with_empty_href"
  by (simp add: rewrite_urls_def page_with_empty_href_def replace_url_def match_attr_def
      env_defs str_defs)

text \<open>The replacement of line 318 is made in the whole match, the name of the attribute
  included: a value that occurs in \<open>src=\<close> is replaced there too.\<close>

lemma rewrite_urls_attribute_name:
  "rewrite_urls offline_env (''<img src='' @ [dquote] @ ''s'' @ [dquote] @ ''>'') ''http://site/d/''
     = ''<img /d/src='' @ [dquote] @ ''/d/s'' @ [dquote] @ ''>''"
  by (simp add: rewrite_urls_def replace_url_def match_attr_def env_defs str_defs)

section \<open>Content Analyzer: the metadata of a page with two meta elements\<close>

text \<open>
  Claim C9. For each \<open>meta\<close> element with a \<open>name\<close> or \<open>property\<close> attribute the analyzer
  is to record that element's name and content. On a document with the two elements
  \<open>description\<close> and \<open>author\<close> the loop of line 331 runs twice and both times queries the
  whole document: \<open>description\<close> is recorded, \<open>author\<close> is not.
\<close>

theorem analyze_content_second_meta:
  "metadata (analysis (analyze_content offline_env two_meta_doc [] ''http://site/''
       initial_session)) ''description'' = Some ''D''
   \<and> metadata (analysis (analyze_content offline_env two_meta_doc [] ''http://site/''
       initial_session)) ''author'' = None"
  by (simp add: analyze_content_def two_meta_doc_def meta_elements_def record_meta_def
      has_attr_def attr_values_def xpath_get_def env_defs)

section \<open>Cancellation: the retry loop of an asset download\<close>

text \<open>
  Claim C6. Once the stop flag is set no new fetch is to be started, the retry
  iterations of an asset download included. The flag is cleared at moment 3, while the
  first request of the asset is under way or its backoff sleeps; the loop of line 227
  does not read the flag, and the second and the third request are still made.
\<close>

theorem download_asset_after_stop:
  "trace (download_asset stopping_env default_config ''http://site/a.png'' initial_session) =
     [VisitedAdd ''http://site/a.png'', AssetFetch ''http://site/a.png'',
      AssetGet ''http://site/a.png'' 1, Sleep 2,
      AssetGet ''http://site/a.png'' 2, Sleep 4,
      AssetGet ''http://site/a.png'' 3]
   \<and> \<not> running_at stopping_env 3"
  by (simp add: download_asset_def stopping_env_def env_defs upto.simps)

section \<open>Traces of the parts of a run\<close>

lemma emit_simps [simp]:
  "trace (emit e s) = trace s @ [e]"
  "visited_urls (emit e s) = visited_urls s"
  "sitemap (emit e s) = sitemap s"
  "redirects (emit e s) = redirects s"
  "files (emit e s) = files s"
  "analysis (emit e s) = analysis s"
  "now (emit e s) = Suc (now s)"
  by (simp_all add: emit_def now_def)

lemma appends_refl: "appends P s s"
  by (simp add: appends_def)

lemma appends_trans: "appends P s s1 \<Longrightarrow> appends P s1 s2 \<Longrightarrow> appends P s s2"
  by (auto simp: appends_def)

lemma appends_emit: "P e \<Longrightarrow> appends P s (emit e s)"
  by (simp add: appends_def)

lemma appends_mono: "appends P s s' \<Longrightarrow> (\<And>e. P e \<Longrightarrow> Q e) \<Longrightarrow> appends Q s s'"
  by (auto simp: appends_def list_all_iff)

lemma appends_same_trace: "trace s' = trace s \<Longrightarrow> appends P s s'"
  by (simp add: appends_def)

lemma appends_new_events: "appends P s s' \<Longrightarrow> trace s' = trace s @ new_events s s' \<and> list_all P (new_events s s')"
  by (auto simp: appends_def new_events_def)

lemma quiet_refl: "quiet s s"
  by (simp add: quiet_def appends_refl)

lemma quiet_trans: "quiet s s1 \<Longrightarrow> quiet s1 s2 \<Longrightarrow> quiet s s2"
  by (auto simp: quiet_def intro: appends_trans)

lemma quiet_emit: "\<not> scheduler_event e \<Longrightarrow> quiet s (emit e s)"
  by (simp add: quiet_def appends_emit)

lemma save_file_io: "appends io_event s (save_file E url content b ct s)"
  by (auto simp: save_file_def Let_def io_event_def appends_def)

lemma save_file_fields [simp]:
  "visited_urls (save_file E url content b ct s) = visited_urls s"
  "sitemap (save_file E url content b ct s) = sitemap s"
  "redirects (save_file E url content b ct s) = redirects s"
  "analysis (save_file E url content b ct s) = analysis s"
  by (simp_all add: save_file_def Let_def)

lemma analyze_content_fields [simp]:
  "trace (analyze_content E doc c u s) = trace s"
  "visited_urls (analyze_content E doc c u s) = visited_urls s"
  "sitemap (analyze_content E doc c u s) = sitemap s"
  "redirects (analyze_content E doc c u s) = redirects s"
  "files (analyze_content E doc c u s) = files s"
  by (simp_all add: analyze_content_def Let_def)

lemma probe_all_io: "appends io_event s (probe_all E us s)"
proof (induction us arbitrary: s)
  case Nil
  show ?case by (simp add: appends_refl)
next
  case (Cons u us)
  have step: "appends io_event s (emit (ApiProbe u) s)"
    by (rule appends_emit) (simp add: io_event_def)
  show ?case
  proof (cases "http_probe E (now s) u")
    case ProbeFailed
    then show ?thesis
      using appends_trans [OF step Cons.IH [of "emit (ApiProbe u) s"]] by simp
  next
    case (ProbeResponse st body_text)
    let ?s2 = "(emit (ApiProbe u) s)\<lparr>analysis := (analysis (emit (ApiProbe u) s))\<lparr>api_endpoints := api_endpoints (analysis (emit (ApiProbe u) s))
                  @ [\<lparr>ep_url = u, ep_status = st,
                      ep_response = (if st = 200 then take 200 body_text else [])\<rparr>]\<rparr>\<rparr>"
    have "appends io_event s ?s2"
      using step by (simp add: appends_def)
    from appends_trans [OF this Cons.IH [of ?s2]] ProbeResponse show ?thesis
      by (simp add: Let_def)
  qed
qed

lemma probe_all_fields [simp]:
  "visited_urls (probe_all E us s) = visited_urls s"
  "sitemap (probe_all E us s) = sitemap s"
  "redirects (probe_all E us s) = redirects s"
  "files (probe_all E us s) = files s"
  by (induction us arbitrary: s; simp add: Let_def split: probe_outcome.splits)+

lemma probe_all_analysis:
  "(analysis (probe_all E us s))\<lparr>api_endpoints := x\<rparr> = (analysis s)\<lparr>api_endpoints := x\<rparr>"
  by (induction us arbitrary: s) (simp_all add: Let_def split: probe_outcome.splits)

lemma try_fetch_trace:
  assumes "try_fetch E C url a s = (r, s1)"
  shows "\<exists>evs. trace s1 = trace s @ evs
           \<and> evs \<in> {[], [HttpGet url a], [BrowserLaunch], [BrowserLaunch, BrowserClose]}"
  using assms
  by (auto simp: try_fetch_def Let_def
      split: if_splits browser_outcome.splits http_outcome.splits option.splits)

lemma try_fetch_fields:
  assumes "try_fetch E C url a s = (r, s1)"
  shows "visited_urls s1 = visited_urls s \<and> sitemap s1 = sitemap s \<and> files s1 = files s
           \<and> analysis s1 = analysis s"
  using assms
  by (auto simp: try_fetch_def Let_def
      split: if_splits browser_outcome.splits http_outcome.splits option.splits)

lemma try_fetch_quiet:
  assumes "try_fetch E C url a s = (r, s1)"
  shows "quiet s s1"
proof -
  from try_fetch_trace [OF assms] obtain evs where
    "trace s1 = trace s @ evs" "list_all (\<lambda>e. \<not> scheduler_event e) evs"
    by (auto simp: scheduler_event_def)
  with try_fetch_fields [OF assms] show ?thesis
    by (auto simp: quiet_def appends_def)
qed

lemma quiet_sleep: "quiet s (emit (Sleep d) s)"
  by (rule quiet_emit) (simp add: scheduler_event_def)

lemma fetch_stop:
  "\<not> running E s \<or> int a > retries C
   \<Longrightarrow> fetch_with_redirects E C (Suc n) url a s = Some ((url, None), s)"
  by auto

lemma fetch_step:
  "running E s \<Longrightarrow> int a \<le> retries C \<Longrightarrow> try_fetch E C url a s = (res, s1)
   \<Longrightarrow> fetch_with_redirects E C (Suc n) url a s =
       (case res of
          Return r \<Rightarrow> Some (r, s1)
        | Redirect next_url \<Rightarrow> fetch_with_redirects E C n next_url a s1
        | RequestFailed \<Rightarrow>
            fetch_with_redirects E C n url (a + 1) (emit (Sleep (2 ^ a)) s1)
        | Unexpected \<Rightarrow>
            if int a < retries C
            then fetch_with_redirects E C n url (a + 1) (emit (Sleep (2 ^ a)) s1)
            else Some ((url, None), s1))"
  by simp

declare fetch_with_redirects.simps(2) [simp del]

lemma fetch_quiet:
  "fetch_with_redirects E C n url a s = Some (r, s') \<Longrightarrow> quiet s s'"
proof (induction n arbitrary: url a s)
  case 0
  then show ?case by simp
next
  case (Suc n)
  obtain res s1 where tf: "try_fetch E C url a s = (res, s1)"
    by (cases "try_fetch E C url a s")
  note q1 = try_fetch_quiet [OF tf]
  note q2 = quiet_trans [OF q1 quiet_sleep [of s1 "2 ^ a"]]
  show ?case
  proof (cases "\<not> running E s \<or> int a > retries C")
    case True
    from Suc.prems fetch_stop [OF True] show ?thesis by (simp add: quiet_refl)
  next
    case False
    then have run: "running E s" and le: "int a \<le> retries C" by auto
    note step = fetch_step [OF run le tf, of n]
    show ?thesis
    proof (cases res)
      case (Return x)
      with Suc.prems step q1 show ?thesis by simp
    next
      case (Redirect nu)
      with Suc.prems step have "fetch_with_redirects E C n nu a s1 = Some (r, s')"
        by simp
      from quiet_trans [OF q1 Suc.IH [OF this]] show ?thesis .
    next
      case RequestFailed
      with Suc.prems step
      have "fetch_with_redirects E C n url (a + 1) (emit (Sleep (2 ^ a)) s1) = Some (r, s')"
        by simp
      from quiet_trans [OF q2 Suc.IH [OF this]] show ?thesis .
    next
      case Unexpected
      show ?thesis
      proof (cases "int a < retries C")
        case True
        with Unexpected Suc.prems step
        have "fetch_with_redirects E C n url (a + 1) (emit (Sleep (2 ^ a)) s1) = Some (r, s')"
          by simp
        from quiet_trans [OF q2 Suc.IH [OF this]] show ?thesis .
      next
        case F2: False
        with Unexpected Suc.prems step q1 show ?thesis by simp
      qed
    qed
  qed
qed



section \<open>Fetcher: redirect chains\<close>

lemma fetch_redirect_hop:
  assumes "\<not> use_browser C" "running E s" "int a \<le> retries C"
    and "http_get E (now s) u = Response r" "is_redirect (status_code r)"
    and "location r = Some l" "l \<noteq> []" "urljoin E u l = Some v"
  shows "fetch_with_redirects E C (Suc n) u a s =
           fetch_with_redirects E C n v a
             ((emit (HttpGet u a) s)\<lparr>redirects := (redirects s)(u \<mapsto> v)\<rparr>)"
proof -
  have "try_fetch E C u a s =
          (Redirect v, (emit (HttpGet u a) s)\<lparr>redirects := (redirects s)(u \<mapsto> v)\<rparr>)"
    using assms by (simp add: try_fetch_def Let_def)
  from fetch_step [OF assms(2,3) this] show ?thesis by simp
qed

lemma fetch_ok:
  assumes "\<not> use_browser C" "running E s" "int a \<le> retries C"
    and "http_get E (now s) u = Response r" "status_code r = 200"
  shows "fetch_with_redirects E C (Suc n) u a s = Some ((u, Some (body r)), emit (HttpGet u a) s)"
proof -
  have "try_fetch E C u a s = (Return (u, Some (body r)), emit (HttpGet u a) s)"
    using assms by (simp add: try_fetch_def Let_def is_redirect_def)
  from fetch_step [OF assms(2,3) this] show ?thesis by simp
qed

lemma fetch_no_location:
  assumes "\<not> use_browser C" "running E s" "int a \<le> retries C"
    and "http_get E (now s) u = Response r" "is_redirect (status_code r)"
    and "location r = None \<or> location r = Some []"
  shows "fetch_with_redirects E C (Suc n) u a s = Some ((u, None), emit (HttpGet u a) s)"
proof -
  have "try_fetch E C u a s = (Return (u, None), emit (HttpGet u a) s)"
    using assms by (auto simp: try_fetch_def Let_def)
  from fetch_step [OF assms(2,3) this] show ?thesis by simp
qed

lemma fetch_chain:
  assumes nb: "\<not> use_browser C" and le: "int a \<le> retries C"
    and run: "running_at E (now s)" "running_at E (now s + 1)" "running_at E (now s + 2)"
    and h1: "http_get E (now s) u1 = Response r1" "is_redirect (status_code r1)"
      "location r1 = Some l1" "l1 \<noteq> []" "urljoin E u1 l1 = Some u2"
    and h2: "http_get E (now s + 1) u2 = Response r2" "is_redirect (status_code r2)"
      "location r2 = Some l2" "l2 \<noteq> []" "urljoin E u2 l2 = Some u3"
    and h3: "http_get E (now s + 2) u3 = Response r3" "status_code r3 = 200"
  shows "fetch_with_redirects E C (Suc (Suc (Suc n))) u1 a s =
           Some ((u3, Some (body r3)),
                 s\<lparr>redirects := (redirects s)(u1 \<mapsto> u2, u2 \<mapsto> u3),
                   trace := trace s @ [HttpGet u1 a, HttpGet u2 a, HttpGet u3 a]\<rparr>)"
proof -
  let ?s1 = "(emit (HttpGet u1 a) s)\<lparr>redirects := (redirects s)(u1 \<mapsto> u2)\<rparr>"
  let ?s2 = "(emit (HttpGet u2 a) ?s1)\<lparr>redirects := (redirects ?s1)(u2 \<mapsto> u3)\<rparr>"
  have n1: "now ?s1 = now s + 1" and n2: "now ?s2 = now s + 2"
    by (simp_all add: now_def emit_def)
  have "fetch_with_redirects E C (Suc (Suc (Suc n))) u1 a s =
          fetch_with_redirects E C (Suc (Suc n)) u2 a ?s1"
    using nb le run(1) h1 by (intro fetch_redirect_hop) (simp_all add: running_def)
  also have "\<dots> = fetch_with_redirects E C (Suc n) u3 a ?s2"
    using nb le run(2) h2 n1 by (intro fetch_redirect_hop) (simp_all add: running_def)
  also have "\<dots> = Some ((u3, Some (body r3)), emit (HttpGet u3 a) ?s2)"
    using nb le run(3) h3 n2 by (intro fetch_ok) (simp_all add: running_def)
  also have "emit (HttpGet u3 a) ?s2 =
               s\<lparr>redirects := (redirects s)(u1 \<mapsto> u2, u2 \<mapsto> u3),
                 trace := trace s @ [HttpGet u1 a, HttpGet u2 a, HttpGet u3 a]\<rparr>"
    by (simp add: emit_def)
  finally show ?thesis .
qed

text \<open>
  Claim C3. In HTTP mode, a chain of two redirects that ends in a 200 response: the
  request for \<open>u1\<close> is answered by a redirect whose \<open>Location\<close> resolves to \<open>u2\<close>, the
  request for \<open>u2\<close> by a redirect that resolves to \<open>u3\<close>, the request for \<open>u3\<close> by
  status 200. With the flag set at the three moments and \<open>attempt\<close> within the budget,
  the fetch returns \<open>u3\<close> with the body of the 200 response, has stored the two hops
  \<open>u1 \<mapsto> u2\<close> and \<open>u2 \<mapsto> u3\<close> in the redirect map (the second store overwrites the
  first when \<open>u1 = u2\<close>), and has made its three requests with the same value of
  \<open>attempt\<close> and no sleep between them. A redirect status without a \<open>Location\<close>
  header, or with an empty one, ends the fetch at once with no content: one request,
  no sleep, no retry.
\<close>

theorem fetch_redirect_chain:
  "(\<not> use_browser C \<and> int a \<le> retries C
      \<and> running_at E (now s) \<and> running_at E (now s + 1) \<and> running_at E (now s + 2)
      \<and> http_get E (now s) u1 = Response r1 \<and> is_redirect (status_code r1)
      \<and> location r1 = Some l1 \<and> l1 \<noteq> [] \<and> urljoin E u1 l1 = Some u2
      \<and> http_get E (now s + 1) u2 = Response r2 \<and> is_redirect (status_code r2)
      \<and> location r2 = Some l2 \<and> l2 \<noteq> [] \<and> urljoin E u2 l2 = Some u3
      \<and> http_get E (now s + 2) u3 = Response r3 \<and> status_code r3 = 200
    \<longrightarrow> fetch_with_redirects E C (Suc (Suc (Suc n))) u1 a s =
          Some ((u3, Some (body r3)),
                s\<lparr>redirects := (redirects s)(u1 \<mapsto> u2, u2 \<mapsto> u3),
                  trace := trace s @ [HttpGet u1 a, HttpGet u2 a, HttpGet u3 a]\<rparr>))
   \<and> (\<not> use_browser C \<and> int a \<le> retries C \<and> running_at E (now s)
      \<and> http_get E (now s) u1 = Response r1 \<and> is_redirect (status_code r1)
      \<and> (location r1 = None \<or> location r1 = Some [])
    \<longrightarrow> fetch_with_redirects E C (Suc n) u1 a s = Some ((u1, None), emit (HttpGet u1 a) s))"
  using fetch_chain [of C a E s u1 r1 l1 u2 r2 l2 u3 r3 n]
    fetch_no_location [of C E s a u1 r1 n]
  by (simp add: running_def)

theorem fetch_redirect_chain_witness:
  "fetch_with_redirects chain_env default_config (Suc (Suc (Suc 0))) ''http://site/a'' 1
     initial_session =
     Some ((''http://site/c'', Some ''C''),
           initial_session\<lparr>redirects := [''http://site/a'' \<mapsto> ''http://site/b'',
                                          ''http://site/b'' \<mapsto> ''http://site/c''],
             trace := [HttpGet ''http://site/a'' 1, HttpGet ''http://site/b'' 1,
                       HttpGet ''http://site/c'' 1]\<rparr>)
   \<and> fetch_with_redirects bare_redirect_env default_config (Suc 0) ''http://site/a'' 1
       initial_session =
       Some ((''http://site/a'', None), emit (HttpGet ''http://site/a'' 1) initial_session)"
proof -
  have a: "fetch_with_redirects chain_env default_config (Suc (Suc (Suc 0))) ''http://site/a'' 1
     initial_session =
     Some ((''http://site/c'', Some ''C''),
           initial_session\<lparr>redirects := [''http://site/a'' \<mapsto> ''http://site/b'',
                                          ''http://site/b'' \<mapsto> ''http://site/c''],
             trace := [HttpGet ''http://site/a'' 1, HttpGet ''http://site/b'' 1,
                       HttpGet ''http://site/c'' 1]\<rparr>)"
    using fetch_redirect_chain [of default_config 1 chain_env initial_session
        "''http://site/a''" "redirect_response ''/b''" "''/b''" "''http://site/b''"
        "redirect_response ''http://site/c''" "''http://site/c''" "''http://site/c''"
        "ok_response ''text/html'' ''C''" 0]
    by (simp add: chain_env_def chain_get_def redirect_response_def ok_response_def
        is_redirect_def env_defs startswith_def)
  have b: "fetch_with_redirects bare_redirect_env default_config (Suc 0) ''http://site/a'' 1
       initial_session =
       Some ((''http://site/a'', None), emit (HttpGet ''http://site/a'' 1) initial_session)"
    using fetch_redirect_chain [of default_config 1 bare_redirect_env initial_session
        "''http://site/a''" "not_found_response\<lparr>status_code := 301\<rparr>" "[]" "[]"
        "not_found_response" "[]" "[]" "not_found_response" 0]
    by (simp add: bare_redirect_env_def not_found_response_def is_redirect_def env_defs)
  from a b show ?thesis by blast
qed

section \<open>Fetcher: headless-browser mode\<close>

lemma browser_try_fetch:
  assumes "use_browser C" "try_fetch E C url a s = (res, s1)"
  shows "redirects s1 = redirects s \<and> (\<forall>v. res \<noteq> Redirect v)
           \<and> (\<forall>u c. res = Return (u, c) \<longrightarrow> u = url)"
  using assms by (auto simp: try_fetch_def split: browser_outcome.splits)

lemma browser_fetch_frame:
  "use_browser C \<Longrightarrow> fetch_with_redirects E C n url a s = Some ((u', c), s')
   \<Longrightarrow> redirects s' = redirects s \<and> u' = url"
proof (induction n arbitrary: a s)
  case 0
  then show ?case by simp
next
  case (Suc n)
  obtain res s1 where tf: "try_fetch E C url a s = (res, s1)"
    by (cases "try_fetch E C url a s")
  note bt = browser_try_fetch [OF Suc.prems(1) tf]
  show ?case
  proof (cases "\<not> running E s \<or> int a > retries C")
    case True
    from Suc.prems(2) fetch_stop [OF True] show ?thesis by simp
  next
    case False
    then have run: "running E s" and le: "int a \<le> retries C" by auto
    note step = fetch_step [OF run le tf, of n]
    have retry: ?thesis
      if "fetch_with_redirects E C n url (a + 1) (emit (Sleep (2 ^ a)) s1) = Some ((u', c), s')"
      using Suc.IH [OF Suc.prems(1) that] bt by simp
    show ?thesis
    proof (cases res)
      case (Return x)
      with Suc.prems(2) step bt show ?thesis by auto
    next
      case (Redirect v)
      with bt show ?thesis by simp
    next
      case RequestFailed
      with Suc.prems(2) step show ?thesis by (intro retry) simp
    next
      case Unexpected
      show ?thesis
      proof (cases "int a < retries C")
        case True
        with Unexpected Suc.prems(2) step show ?thesis by (intro retry) simp
      next
        case F2: False
        with Unexpected Suc.prems(2) step bt show ?thesis by simp
      qed
    qed
  qed
qed

lemma browser_fetch_loaded:
  assumes "use_browser C" "running_at E (now s)" "int a \<le> retries C"
    and "browser_load E (now s) url = Loaded content"
  shows "fetch_with_redirects E C (Suc n) url a s =
           Some ((url, Some content), emit BrowserClose (emit BrowserLaunch s))"
proof -
  have "try_fetch E C url a s =
          (Return (url, Some content), emit BrowserClose (emit BrowserLaunch s))"
    using assms by (simp add: try_fetch_def)
  from fetch_step [OF _ assms(3) this] assms(2) show ?thesis by (simp add: running_def)
qed

lemma browser_try_fetch_cases:
  "use_browser C \<Longrightarrow>
     try_fetch E C url a s =
       (case browser_load E (now s) url of
          LaunchFailed \<Rightarrow> (Unexpected, s)
        | PageFailed \<Rightarrow> (Unexpected, emit BrowserLaunch s)
        | Loaded content \<Rightarrow>
            (Return (url, Some content), emit BrowserClose (emit BrowserLaunch s)))"
  by (simp add: try_fetch_def)

lemma browser_fetch_page_failed:
  assumes "use_browser C" "running_at E (now s)" "int a \<le> retries C"
    and "browser_load E (now s) url = PageFailed"
  shows "fetch_with_redirects E C (Suc n) url a s =
           (if int a < retries C
            then fetch_with_redirects E C n url (a + 1)
                   (emit (Sleep (2 ^ a)) (emit BrowserLaunch s))
            else Some ((url, None), emit BrowserLaunch s))"
proof -
  have "try_fetch E C url a s = (Unexpected, emit BrowserLaunch s)"
    using assms by (simp add: browser_try_fetch_cases)
  from fetch_step [OF _ assms(3) this] assms(2) show ?thesis by (simp add: running_def)
qed

lemma browser_fetch_launch_failed:
  assumes "use_browser C" "running_at E (now s)" "int a \<le> retries C"
    and "browser_load E (now s) url = LaunchFailed"
  shows "fetch_with_redirects E C (Suc n) url a s =
           (if int a < retries C
            then fetch_with_redirects E C n url (a + 1) (emit (Sleep (2 ^ a)) s)
            else Some ((url, None), s))"
proof -
  have "try_fetch E C url a s = (Unexpected, s)"
    using assms by (simp add: browser_try_fetch_cases)
  from fetch_step [OF _ assms(3) this] assms(2) show ?thesis by (simp add: running_def)
qed

lemma browser_fetch_trace:
  "use_browser C \<Longrightarrow> fetch_with_redirects E C n url a s = Some (r, s')
   \<Longrightarrow> \<exists>evs. trace s' = trace s @ evs \<and> browser_trace_ok (retries C) a False evs"
proof (induction n arbitrary: a s)
  case 0
  then show ?case by simp
next
  case (Suc n)
  note ub = Suc.prems(1)
  show ?case
  proof (cases "\<not> running E s \<or> int a > retries C")
    case True
    from Suc.prems(2) fetch_stop [OF True] have "s' = s" by simp
    then show ?thesis by simp
  next
    case False
    then have run: "running_at E (now s)" and le: "int a \<le> retries C"
      by (auto simp: running_def)
    have retry: ?thesis
      if f: "fetch_with_redirects E C n url (a + 1) (emit (Sleep (2 ^ a)) s1) = Some (r, s')"
        and lt: "int a < retries C"
        and s1: "trace s1 = trace s @ evs1" "evs1 = [] \<or> evs1 = [BrowserLaunch]" for s1 evs1
    proof -
      from Suc.IH [OF ub f] obtain evs where
        e: "trace s' = trace (emit (Sleep (2 ^ a)) s1) @ evs"
        and ok: "browser_trace_ok (retries C) (a + 1) False evs" by blast
      from e s1(1) have "trace s' = trace s @ (evs1 @ Sleep (2 ^ a) # evs)" by simp
      moreover from ok lt s1(2)
      have "browser_trace_ok (retries C) a False (evs1 @ Sleep (2 ^ a) # evs)" by auto
      ultimately show ?thesis by blast
    qed
    show ?thesis
    proof (cases "browser_load E (now s) url")
      case (Loaded content)
      from browser_fetch_loaded [OF ub run le Loaded, of n] Suc.prems(2)
      have "s' = emit BrowserClose (emit BrowserLaunch s)" by simp
      then have "trace s' = trace s @ [BrowserLaunch, BrowserClose]" by simp
      moreover have "browser_trace_ok (retries C) a False [BrowserLaunch, BrowserClose]"
        by simp
      ultimately show ?thesis by blast
    next
      case PageFailed
      note step = browser_fetch_page_failed [OF ub run le PageFailed, of n]
      show ?thesis
      proof (cases "int a < retries C")
        case True
        with step Suc.prems(2) show ?thesis
          by (intro retry [of "emit BrowserLaunch s" "[BrowserLaunch]"]) simp_all
      next
        case F2: False
        with step Suc.prems(2) have "trace s' = trace s @ [BrowserLaunch]" by auto
        moreover have "browser_trace_ok (retries C) a False [BrowserLaunch]" by simp
        ultimately show ?thesis by blast
      qed
    next
      case LaunchFailed
      note step = browser_fetch_launch_failed [OF ub run le LaunchFailed, of n]
      show ?thesis
      proof (cases "int a < retries C")
        case True
        with step Suc.prems(2) show ?thesis
          by (intro retry [of s "[]"]) simp_all
      next
        case F2: False
        with step Suc.prems(2) have "s' = s" by simp
        then show ?thesis by simp
      qed
    qed
  qed
qed

lemma browser_fetch_returns:
  "use_browser C \<Longrightarrow> nat (retries C + 1 - int a) < n
   \<Longrightarrow> \<exists>r s'. fetch_with_redirects E C n url a s = Some (r, s')"
proof (induction n arbitrary: a s)
  case 0
  then show ?case by simp
next
  case (Suc n)
  note ub = Suc.prems(1)
  show ?case
  proof (cases "\<not> running E s \<or> int a > retries C")
    case True
    from fetch_stop [OF True] show ?thesis by simp
  next
    case False
    then have run: "running_at E (now s)" and le: "int a \<le> retries C"
      by (auto simp: running_def)
    from le Suc.prems(2) have fuel: "nat (retries C + 1 - int (a + 1)) < n" by simp
    show ?thesis
    proof (cases "browser_load E (now s) url")
      case (Loaded content)
      from browser_fetch_loaded [OF ub run le Loaded, of n] show ?thesis by simp
    next
      case PageFailed
      from browser_fetch_page_failed [OF ub run le PageFailed, of n]
        Suc.IH [OF ub fuel, of "emit (Sleep (2 ^ a)) (emit BrowserLaunch s)"]
      show ?thesis by auto
    next
      case LaunchFailed
      from browser_fetch_launch_failed [OF ub run le LaunchFailed, of n]
        Suc.IH [OF ub fuel, of "emit (Sleep (2 ^ a)) s"]
      show ?thesis by auto
    qed
  qed
qed

text \<open>
  Claim C7, as amended. In headless-browser mode:
  \<^item> no fetch writes the redirect map or leaves the URL it was called with, whatever
    the browser does;
  \<^item> an attempt whose page load succeeds, made while the flag is set and \<open>attempt\<close> is
    within the budget, launches one browser, closes it and returns the rendered page,
    with no sleep and with \<open>attempt\<close> unchanged;
  \<^item> an attempt in which the browser raises, after the launch or in the launch itself,
    is followed by a sleep of \<open>2 ^ attempt\<close> and by a new attempt with \<open>attempt + 1\<close> when
    \<open>attempt\<close> is below the retry budget, and ends the fetch without content otherwise;
  \<^item> the trace that a fetch adds passes \<open>browser_trace_ok\<close>: each attempt launches at
    most one browser, a browser of its own, no request of the HTTP client is made,
    and the sleeps follow the backoff above;
  \<^item> the fetch returns whenever the bound on the nesting of its calls exceeds the
    number of attempts that the budget leaves.
\<close>

theorem browser_fetch:
  assumes "use_browser C"
  shows "(fetch_with_redirects E C n url a s = Some ((u', c), s')
            \<longrightarrow> redirects s' = redirects s \<and> u' = url
                 \<and> browser_trace_ok (retries C) a False (new_events s s'))
         \<and> (running_at E (now s) \<and> int a \<le> retries C
              \<and> browser_load E (now s) url = Loaded content
            \<longrightarrow> fetch_with_redirects E C (Suc m) url a s =
                  Some ((url, Some content), emit BrowserClose (emit BrowserLaunch s)))
         \<and> (running_at E (now s) \<and> int a \<le> retries C
              \<and> browser_load E (now s) url = PageFailed
            \<longrightarrow> fetch_with_redirects E C (Suc m) url a s =
                  (if int a < retries C
                   then fetch_with_redirects E C m url (a + 1)
                          (emit (Sleep (2 ^ a)) (emit BrowserLaunch s))
                   else Some ((url, None), emit BrowserLaunch s)))
         \<and> (running_at E (now s) \<and> int a \<le> retries C
              \<and> browser_load E (now s) url = LaunchFailed
            \<longrightarrow> fetch_with_redirects E C (Suc m) url a s =
                  (if int a < retries C
                   then fetch_with_redirects E C m url (a + 1) (emit (Sleep (2 ^ a)) s)
                   else Some ((url, None), s)))
         \<and> (nat (retries C + 1 - int a) < n
            \<longrightarrow> (\<exists>r t. fetch_with_redirects E C n url a s = Some (r, t)))"
proof -
  have "browser_trace_ok (retries C) a False (new_events s s')"
    if "fetch_with_redirects E C n url a s = Some ((u', c), s')"
    using browser_fetch_trace [OF assms that] by (auto simp: new_events_def)
  then show ?thesis
    using browser_fetch_frame [OF assms, of E n url a s u' c s']
      browser_fetch_loaded [OF assms, of E s a url content m]
      browser_fetch_page_failed [OF assms, of E s a url m]
      browser_fetch_launch_failed [OF assms, of E s a url m]
      browser_fetch_returns [OF assms, of a n E url s]
    by blast
qed

lemma failing_browser_run:
  "fetch_with_redirects offline_env browser_config 10 ''http://site/'' 1 initial_session =
     Some ((''http://site/'', None),
           initial_session\<lparr>trace :=
             [BrowserLaunch, Sleep 2, BrowserLaunch, Sleep 4, BrowserLaunch]\<rparr>)"
  by (simp add: try_fetch_def browser_config_def env_defs numeral_nat
      fetch_with_redirects.simps)

theorem browser_fetch_witness:
  "use_browser browser_config
   \<and> fetch_with_redirects loaded_env browser_config (Suc 0) ''http://site/'' 1 initial_session =
       Some ((''http://site/'', Some ''PAGE''),
             emit BrowserClose (emit BrowserLaunch initial_session))
   \<and> redirects (emit BrowserClose (emit BrowserLaunch initial_session)) =
       redirects initial_session
   \<and> browser_trace_ok (retries browser_config) 1 False
       (new_events initial_session
          (initial_session\<lparr>trace :=
             [BrowserLaunch, Sleep 2, BrowserLaunch, Sleep 4, BrowserLaunch]\<rparr>))
   \<and> fetch_with_redirects offline_env browser_config (Suc 9) ''http://site/'' 1
       initial_session =
       fetch_with_redirects offline_env browser_config 9 ''http://site/'' 2
         (emit (Sleep 2) (emit BrowserLaunch initial_session))
   \<and> fetch_with_redirects launch_failing_env browser_config (Suc 0) ''http://site/'' 3
       initial_session = Some ((''http://site/'', None), initial_session)
   \<and> fetch_with_redirects offline_env browser_config 10 ''http://site/'' 1 initial_session
       \<noteq> None"
proof -
  have ub: "use_browser browser_config"
    by (simp add: browser_config_def default_config_def)
  have r: "retries browser_config = 3"
    by (simp add: browser_config_def default_config_def)
  have ld: "fetch_with_redirects loaded_env browser_config (Suc 0) ''http://site/'' 1
      initial_session =
       Some ((''http://site/'', Some ''PAGE''),
             emit BrowserClose (emit BrowserLaunch initial_session))"
    using browser_fetch [OF ub, where E = loaded_env and n = 0 and url = "''http://site/''"
        and a = 1 and s = initial_session and u' = "[]" and c = None and s' = initial_session
        and content = "''PAGE''" and m = 0]
    by (simp add: loaded_env_def r env_defs)
  have fr: "redirects (emit BrowserClose (emit BrowserLaunch initial_session)) =
       redirects initial_session"
    using browser_fetch [OF ub, where E = loaded_env and n = "Suc 0" and url = "''http://site/''"
        and a = 1 and s = initial_session and u' = "''http://site/''" and c = "Some ''PAGE''"
        and s' = "emit BrowserClose (emit BrowserLaunch initial_session)"
        and content = "[]" and m = 0] ld
    by blast
  have tr: "browser_trace_ok (retries browser_config) 1 False
       (new_events initial_session
          (initial_session\<lparr>trace :=
             [BrowserLaunch, Sleep 2, BrowserLaunch, Sleep 4, BrowserLaunch]\<rparr>))"
    using browser_fetch [OF ub, where E = offline_env and n = 10 and url = "''http://site/''"
        and a = 1 and s = initial_session and u' = "''http://site/''" and c = None
        and s' = "initial_session\<lparr>trace :=
             [BrowserLaunch, Sleep 2, BrowserLaunch, Sleep 4, BrowserLaunch]\<rparr>"
        and content = "[]" and m = 0]
      failing_browser_run
    by blast
  have pf: "fetch_with_redirects offline_env browser_config (Suc 9) ''http://site/'' 1
       initial_session =
       fetch_with_redirects offline_env browser_config 9 ''http://site/'' 2
         (emit (Sleep 2) (emit BrowserLaunch initial_session))"
    using browser_fetch [OF ub, where E = offline_env and n = 0 and url = "''http://site/''"
        and a = 1 and s = initial_session and u' = "[]" and c = None and s' = initial_session
        and content = "[]" and m = 9]
    by (simp add: r env_defs numeral_2_eq_2)
  have lf: "fetch_with_redirects launch_failing_env browser_config (Suc 0) ''http://site/'' 3
       initial_session = Some ((''http://site/'', None), initial_session)"
    using browser_fetch [OF ub, where E = launch_failing_env and n = 0
        and url = "''http://site/''" and a = 3 and s = initial_session and u' = "[]"
        and c = None and s' = initial_session and content = "[]" and m = 0]
    by (simp add: launch_failing_env_def r env_defs)
  have rt: "fetch_with_redirects offline_env browser_config 10 ''http://site/'' 1
      initial_session \<noteq> None"
    using browser_fetch [OF ub, where E = offline_env and n = 10 and url = "''http://site/''"
        and a = 1 and s = initial_session and u' = "[]" and c = None and s' = initial_session
        and content = "[]" and m = 0]
    by (auto simp: r)
  from ub ld fr tr pf lf rt show ?thesis by blast
qed

text \<open>
  Claim C7 as stated says that a fetch in this mode never sleeps, never increments
  \<open>attempt\<close> and tears its browser down before it returns. When the page load raises,
  the handler of line 212 sleeps and retries while \<open>attempt < retries\<close>, and
  \<open>browser.close()\<close> of line 191 is not reached: three launches, two sleeps, no close.
\<close>

theorem browser_fetch_retries:
  "fetch_events offline_env browser_config 10 ''http://site/'' =
     [BrowserLaunch, Sleep 2, BrowserLaunch, Sleep 4, BrowserLaunch]"
  by (simp add: fetch_events_def try_fetch_def browser_config_def env_defs numeral_nat
      fetch_with_redirects.simps)

section \<open>Fetcher: backoff\<close>


lemma analyze_js_io: "appends io_event s (fst (analyze_js E content url s))"
  by (simp add: analyze_js_def probe_all_io)

lemma asset_success_io:
  assumes "http_get_follow E (now s) url = Response r" "status_code r = 200"
  shows "appends io_event (emit (AssetGet url a) s) (asset_attempts E C url (a # rest) s)"
  using assms
  by (auto simp: Let_def intro: save_file_io appends_trans [OF save_file_io analyze_js_io])





section \<open>Deduplication along a trace\<close>

lemma io_not_scheduler: "io_event e \<Longrightarrow> \<not> scheduler_event e"
  by (cases e) (simp_all add: io_event_def scheduler_event_def)

lemma save_file_quiet: "quiet s (save_file E url content b ct s)"
  using appends_mono [OF save_file_io io_not_scheduler] by (simp add: quiet_def)

lemma analyze_content_quiet: "quiet s (analyze_content E doc c u s)"
  by (simp add: quiet_def appends_same_trace)

lemma asset_attempts_quiet: "quiet s (asset_attempts E C url as s)"
proof (induction as arbitrary: s)
  case Nil
  show ?case by (simp add: quiet_refl)
next
  case (Cons a as)
  let ?s1 = "emit (AssetGet url a) s"
  have q1: "quiet s ?s1" by (rule quiet_emit) (simp add: scheduler_event_def)
  have q2: "quiet s (emit (Sleep d) ?s1)" for d
    by (rule quiet_trans [OF q1 quiet_sleep])
  show ?case
  proof (cases "http_get_follow E (now s) url")
    case RequestError
    then show ?thesis
      using quiet_trans [OF q1 Cons.IH [of ?s1]]
        quiet_trans [OF q2 Cons.IH [of "emit (Sleep (2 ^ a)) ?s1"]]
      by (simp add: Let_def)
  next
    case OtherError
    then show ?thesis using q1 by (simp add: Let_def)
  next
    case (Response r)
    show ?thesis
    proof (cases "status_code r = 200")
      case False
      with Response show ?thesis
        using quiet_trans [OF q1 Cons.IH [of ?s1]] by (simp add: Let_def)
    next
      case True
      have "appends io_event ?s1 (asset_attempts E C url (a # as) s)"
        by (rule asset_success_io [OF Response True])
      from appends_mono [OF this io_not_scheduler]
      have "appends (\<lambda>e. \<not> scheduler_event e) ?s1 (asset_attempts E C url (a # as) s)" .
      moreover have "visited_urls (asset_attempts E C url (a # as) s) = visited_urls s"
        "sitemap (asset_attempts E C url (a # as) s) = sitemap s"
        using Response True by (simp_all add: Let_def analyze_js_def)
      ultimately have "quiet ?s1 (asset_attempts E C url (a # as) s)"
        by (simp add: quiet_def)
      from quiet_trans [OF q1 this] show ?thesis .
    qed
  qed
qed

text \<open>What \<open>download_asset\<close> does to the session: nothing, or it adds a URL that was not
  visited, starts its download and goes on quietly.\<close>

lemma download_asset_cases:
  "download_asset E C url s = s
   \<or> (url \<notin> visited_urls s
      \<and> quiet (emit (AssetFetch url) (emit (VisitedAdd url)
                 (s\<lparr>visited_urls := insert url (visited_urls s)\<rparr>)))
           (download_asset E C url s))"
  by (auto simp: download_asset_def asset_attempts_quiet)

lemma projections_Nil [simp]:
  "added [] = []" "started [] = []" "appended [] = []" "crawl_depths [] = []"
  by (simp_all add: added_def started_def appended_def crawl_depths_def)

lemma projections_Cons:
  "added (e # evs) = (case e of VisitedAdd u \<Rightarrow> [u] | _ \<Rightarrow> []) @ added evs"
  "started (e # evs) =
     (case e of Crawling u d \<Rightarrow> [u] | AssetFetch u \<Rightarrow> [u] | _ \<Rightarrow> []) @ started evs"
  "appended (e # evs) = (case e of SitemapAppend u \<Rightarrow> [u] | _ \<Rightarrow> []) @ appended evs"
  "crawl_depths (e # evs) = (case e of Crawling u d \<Rightarrow> [d] | _ \<Rightarrow> []) @ crawl_depths evs"
  by (simp_all add: added_def started_def appended_def crawl_depths_def)

lemma projections_append [simp]:
  "added (xs @ ys) = added xs @ added ys"
  "started (xs @ ys) = started xs @ started ys"
  "appended (xs @ ys) = appended xs @ appended ys"
  "crawl_depths (xs @ ys) = crawl_depths xs @ crawl_depths ys"
  by (simp_all add: added_def started_def appended_def crawl_depths_def)

lemma dedup_ok_append:
  "dedup_ok V F M (xs @ ys) =
     (dedup_ok V F M xs
      \<and> dedup_ok (V \<union> set (added xs)) (F \<union> set (started xs)) (M \<union> set (appended xs)) ys)"
  by (induction xs arbitrary: V F M) (auto simp: projections_Cons split: event.splits)

lemma dedup_ok_inner:
  "list_all (\<lambda>e. \<not> scheduler_event e) evs \<Longrightarrow>
     dedup_ok V F M evs \<and> added evs = [] \<and> started evs = [] \<and> appended evs = []"
  by (induction evs) (auto simp: projections_Cons scheduler_event_def split: event.splits)

lemma dedup_ok_started: "dedup_ok V F M evs \<Longrightarrow> set (started evs) \<subseteq> V \<union> set (added evs)"
proof (induction evs arbitrary: V F M)
  case Nil
  show ?case by simp
next
  case (Cons e evs)
  then show ?case
    by (cases e) (fastforce simp: projections_Cons)+
qed

lemma dedup_ok_distinct:
  "dedup_ok V F M evs \<Longrightarrow> distinct (appended evs) \<and> set (appended evs) \<inter> M = {}"
proof (induction evs arbitrary: V F M)
  case Nil
  show ?case by simp
next
  case (Cons e evs)
  then show ?case
    by (cases e) (fastforce simp: projections_Cons)+
qed

lemma dedup_inv_quiet:
  assumes "dedup_inv s" "quiet s s'"
  shows "dedup_inv s'"
proof -
  from assms(2) obtain evs where
    t: "trace s' = trace s @ evs" and l: "list_all (\<lambda>e. \<not> scheduler_event e) evs"
    and v: "visited_urls s' = visited_urls s" and m: "sitemap s' = sitemap s"
    by (auto simp: quiet_def appends_def)
  note inner = dedup_ok_inner [OF l]
  from assms(1) t v m inner show ?thesis
    by (auto simp: dedup_inv_def dedup_ok_append)
qed

lemma dedup_inv_asset_entry:
  assumes "dedup_inv s" "url \<notin> visited_urls s"
  shows "dedup_inv (emit (AssetFetch url) (emit (VisitedAdd url)
                 (s\<lparr>visited_urls := insert url (visited_urls s)\<rparr>)))"
proof -
  from assms(1) have st: "set (started (trace s)) \<subseteq> visited_urls s"
    using dedup_ok_started [of "{}" "{}" "{}" "trace s"] by (auto simp: dedup_inv_def)
  with assms show ?thesis
    by (auto simp: dedup_inv_def dedup_ok_append projections_Cons)
qed

lemma dedup_inv_download_asset: "dedup_inv s \<Longrightarrow> dedup_inv (download_asset E C url s)"
  using download_asset_cases [of E C url s] dedup_inv_quiet dedup_inv_asset_entry
  by metis

lemma dedup_inv_page_entry:
  assumes "dedup_inv s" "url \<notin> visited_urls s"
  shows "dedup_inv (emit (Crawling url depth) (emit (SitemapAppend url) (emit (VisitedAdd url)
                       (s\<lparr>visited_urls := insert url (visited_urls s),
                          sitemap := sitemap s @ [url]\<rparr>))))"
proof -
  from assms(1) have st: "set (started (trace s)) \<subseteq> visited_urls s"
    using dedup_ok_started [of "{}" "{}" "{}" "trace s"] by (auto simp: dedup_inv_def)
  with assms show ?thesis
    by (auto simp: dedup_inv_def dedup_ok_append projections_Cons)
qed

section \<open>Traces of the crawl\<close>

lemma crawl_page_Suc:
  "crawl_page E C (Suc n) url depth s =
     (if \<not> running E s \<or> depth > crawl_depth C \<or> url \<in> visited_urls s then Some s
      else if \<not> filter_url C url then Some s
      else (case fetch_with_redirects E C n url 1 (page_entry url depth s) of
              None \<Rightarrow> None
            | Some ((final_url, content), s2) \<Rightarrow>
                (case content of
                   None \<Rightarrow> Some s2
                 | Some c \<Rightarrow> if c = [] then Some s2 else page_body E C n final_url c depth s2)))"
  unfolding crawl_page.simps(2) page_entry_def page_body_def Let_def
  by (rule refl)

declare crawl_page.simps(2) [simp del]

text \<open>
  A relation \<open>R d\<close> between the session before and the session after that is reflexive
  and transitive, holds across every quiet part of a run, across every asset download
  and across the entry of a page at a depth \<open>d\<close> within the bound, and that holds at
  depth \<open>d\<close> when it holds at depth \<open>d + 1\<close>, holds across every crawl of a page at depth
  \<open>d\<close>, and at depth \<open>d + 1\<close> across the crawl of its links.
\<close>

lemma crawl_links_rel:
  assumes page: "\<And>url s s'. crawl_page E C n url (d + 1) s = Some s' \<Longrightarrow> R (d + 1) s s'"
    and refl: "\<And>s. R (d + 1) s s"
    and trans: "\<And>s s1 s2. R (d + 1) s s1 \<Longrightarrow> R (d + 1) s1 s2 \<Longrightarrow> R (d + 1) s s2"
  shows "crawl_links E C n f links d s = Some s' \<Longrightarrow> R (d + 1) s s'"
proof (induction links arbitrary: s)
  case Nil
  then show ?case by (simp add: refl)
next
  case (Cons l ls)
  show ?case
  proof (cases "urljoin E f l")
    case None
    with Cons.prems show ?thesis by (simp add: refl)
  next
    case (Some au)
    show ?thesis
    proof (cases "url_netloc E au = root_domain C")
      case False
      with Some Cons.prems have "crawl_links E C n f ls d s = Some s'" by simp
      then show ?thesis by (rule Cons.IH)
    next
      case True
      with Some Cons.prems obtain s1 where
        p: "crawl_page E C n au (d + 1) s = Some s1"
        and r: "crawl_links E C n f ls d s1 = Some s'"
        by (auto split: option.splits)
      from trans [OF page [OF p] Cons.IH [OF r]] show ?thesis .
    qed
  qed
qed

lemma fold_assets_rel:
  assumes refl: "\<And>s. R s s"
    and trans: "\<And>s s1 s2. R s s1 \<Longrightarrow> R s1 s2 \<Longrightarrow> R s s2"
    and asset: "\<And>u s. R s (download_asset E C u s)"
  shows "R s (fold (download_asset E C) urls s)"
proof (induction urls arbitrary: s)
  case Nil
  show ?case by (simp add: refl)
next
  case (Cons u us)
  from trans [OF asset [of s u] Cons.IH [of "download_asset E C u s"]]
  show ?case by simp
qed

lemma crawl_page_rel:
  assumes refl: "\<And>d s. R d s s"
    and trans: "\<And>d s s1 s2. R d s s1 \<Longrightarrow> R d s1 s2 \<Longrightarrow> R d s s2"
    and quiet: "\<And>d s s'. quiet s s' \<Longrightarrow> R d s s'"
    and asset: "\<And>d u s. R d s (download_asset E C u s)"
    and entry: "\<And>d u s. u \<notin> visited_urls s \<Longrightarrow> d \<le> crawl_depth C \<Longrightarrow> R d s (page_entry u d s)"
    and deeper: "\<And>d s s'. R (d + 1) s s' \<Longrightarrow> R d s s'"
  shows "crawl_page E C n url d s = Some s' \<Longrightarrow> R d s s'"
proof (induction n arbitrary: url d s s')
  case 0
  then show ?case by simp
next
  case (Suc n)
  show ?case
  proof (cases "\<not> running E s \<or> d > crawl_depth C \<or> url \<in> visited_urls s \<or> \<not> filter_url C url")
    case True
    then have "crawl_page E C (Suc n) url d s = Some s"
      by (auto simp: crawl_page_Suc)
    with Suc.prems have "s' = s" by simp
    then show ?thesis by (simp add: refl)
  next
    case False
    then have nv: "url \<notin> visited_urls s" and dl: "d \<le> crawl_depth C" by auto
    let ?s1 = "page_entry url d s"
    note r1 = entry [OF nv dl]
    from False have eq: "crawl_page E C (Suc n) url d s =
        (case fetch_with_redirects E C n url 1 ?s1 of
           None \<Rightarrow> None
         | Some ((final_url, content), s2) \<Rightarrow>
             (case content of
                None \<Rightarrow> Some s2
              | Some c \<Rightarrow> if c = [] then Some s2 else page_body E C n final_url c d s2))"
      by (simp add: crawl_page_Suc)
    from Suc.prems eq obtain final content s2 where
      f: "fetch_with_redirects E C n url 1 ?s1 = Some ((final, content), s2)"
      by (cases "fetch_with_redirects E C n url 1 ?s1") auto
    note r2 = trans [OF r1 quiet [OF fetch_quiet [OF f]]]
    show ?thesis
    proof (cases "content = None \<or> content = Some []")
      case True
      with Suc.prems eq f have "s' = s2" by auto
      with r2 show ?thesis by simp
    next
      case nonempty: False
      then obtain c where c: "content = Some c" "c \<noteq> []" by auto
      with Suc.prems eq f have b: "page_body E C n final c d s2 = Some s'"
        by simp
      let ?s3 = "save_file E final c False ''text/html'' s2"
      let ?s4 = "analyze_content E (selector E c) c final ?s3"
      have r3: "R d s ?s3"
        by (rule trans [OF r2 quiet [OF save_file_quiet]])
      have r4: "R d s ?s4"
        by (rule trans [OF r3 quiet [OF analyze_content_quiet]])
      show ?thesis
      proof (cases "those (map (urljoin E final) (page_assets (selector E c)))")
        case None
        with b have "s' = ?s4" by (simp add: page_body_def Let_def)
        with r4 show ?thesis by simp
      next
        case (Some aus)
        let ?s5 = "fold (download_asset E C) aus ?s4"
        from Some b have l: "crawl_links E C n final (page_links (selector E c)) d ?s5 = Some s'"
          by (simp add: page_body_def Let_def)
        have r5: "R d ?s4 ?s5"
        proof (rule fold_assets_rel [of "R d"])
          show "R d t t" for t by (rule refl)
          show "R d t t2" if "R d t t1" "R d t1 t2" for t t1 t2
            using that by (rule trans)
          show "R d t (download_asset E C u t)" for u t by (rule asset)
        qed
        have "R (d + 1) ?s5 s'"
        proof (rule crawl_links_rel [of E C n d R, OF _ _ _ l])
          show "R (d + 1) t t'" if "crawl_page E C n u (d + 1) t = Some t'" for u t t'
            using that by (rule Suc.IH)
          show "R (d + 1) t t" for t by (rule refl)
          show "R (d + 1) t t2" if "R (d + 1) t t1" "R (d + 1) t1 t2" for t t1 t2
            using that by (rule trans)
        qed
        from trans [OF trans [OF r4 r5] deeper [OF this]] show ?thesis .
      qed
    qed
  qed
qed

lemma dedup_inv_page_entry':
  "dedup_inv s \<Longrightarrow> url \<notin> visited_urls s \<Longrightarrow> dedup_inv (page_entry url depth s)"
  unfolding page_entry_def by (rule dedup_inv_page_entry)

lemma crawl_page_dedup_inv:
  assumes "crawl_page E C n url d s = Some s'" "dedup_inv s"
  shows "dedup_inv s'"
proof -
  have "dedup_inv s \<longrightarrow> dedup_inv s'"
  proof (rule crawl_page_rel [of "\<lambda>d s s'. dedup_inv s \<longrightarrow> dedup_inv s'" E C, OF _ _ _ _ _ _ assms(1)])
    show "dedup_inv t \<longrightarrow> dedup_inv t" for t by simp
    show "dedup_inv t \<longrightarrow> dedup_inv t2"
      if "dedup_inv t \<longrightarrow> dedup_inv t1" "dedup_inv t1 \<longrightarrow> dedup_inv t2" for t t1 t2
      using that by simp
    show "dedup_inv t \<longrightarrow> dedup_inv t'" if "quiet t t'" for t t'
      using that dedup_inv_quiet by blast
    show "dedup_inv t \<longrightarrow> dedup_inv (download_asset E C u t)" for u t
      by (simp add: dedup_inv_download_asset)
    show "dedup_inv t \<longrightarrow> dedup_inv (page_entry u k t)"
      if "u \<notin> visited_urls t" "k \<le> crawl_depth C" for k u t
      using that dedup_inv_page_entry' by blast
    show "dedup_inv t \<longrightarrow> dedup_inv t'" if "dedup_inv t \<longrightarrow> dedup_inv t'" for t t'
      using that .
  qed
  with assms(2) show ?thesis by simp
qed

lemma dedup_inv_initial: "dedup_inv initial_session"
  by (simp add: dedup_inv_def initial_session_def)

lemma depth_in_mono: "lo \<le> lo' \<Longrightarrow> depth_in lo' hi e \<Longrightarrow> depth_in lo hi e"
  by (cases e) (simp_all add: depth_in_def)

lemma scheduler_depth_in: "\<not> scheduler_event e \<Longrightarrow> depth_in lo hi e"
  by (cases e) (simp_all add: depth_in_def scheduler_event_def)

lemma quiet_depth_in: "quiet s s' \<Longrightarrow> appends (depth_in lo hi) s s'"
  unfolding quiet_def using appends_mono scheduler_depth_in by blast

lemma download_asset_depth_in: "appends (depth_in lo hi) s (download_asset E C u s)"
proof -
  let ?s0 = "s\<lparr>visited_urls := insert u (visited_urls s)\<rparr>"
  let ?s1 = "emit (AssetFetch u) (emit (VisitedAdd u) ?s0)"
  have a: "appends (depth_in lo hi) s ?s1"
    by (simp add: appends_def depth_in_def)
  from download_asset_cases [of E C u s] show ?thesis
  proof
    assume "download_asset E C u s = s"
    then show ?thesis by (simp add: appends_refl)
  next
    assume "u \<notin> visited_urls s \<and> quiet ?s1 (download_asset E C u s)"
    then have "appends (depth_in lo hi) ?s1 (download_asset E C u s)"
      by (simp add: quiet_depth_in)
    from appends_trans [OF a this] show ?thesis .
  qed
qed

lemma page_entry_depth_in: "k \<le> hi \<Longrightarrow> appends (depth_in k hi) s (page_entry u k s)"
  by (simp add: appends_def page_entry_def depth_in_def)

lemma crawl_page_depth_in:
  assumes "crawl_page E C n url d s = Some s'"
  shows "appends (depth_in d (crawl_depth C)) s s'"
proof (rule crawl_page_rel [of "\<lambda>d. appends (depth_in d (crawl_depth C))" E C, OF _ _ _ _ _ _ assms])
  show "appends (depth_in k (crawl_depth C)) t t" for k t by (rule appends_refl)
  show "appends (depth_in k (crawl_depth C)) t t2"
    if "appends (depth_in k (crawl_depth C)) t t1" "appends (depth_in k (crawl_depth C)) t1 t2"
    for k t t1 t2
    using that by (rule appends_trans)
  show "appends (depth_in k (crawl_depth C)) t t'" if "quiet t t'" for k t t'
    using that by (rule quiet_depth_in)
  show "appends (depth_in k (crawl_depth C)) t (download_asset E C u t)" for k u t
    by (rule download_asset_depth_in)
  show "appends (depth_in k (crawl_depth C)) t (page_entry u k t)"
    if "u \<notin> visited_urls t" "k \<le> crawl_depth C" for k u t
    using that(2) by (rule page_entry_depth_in)
  show "appends (depth_in k (crawl_depth C)) t t'"
    if "appends (depth_in (k + 1) (crawl_depth C)) t t'" for k t t'
    using that by (rule appends_mono) (rule depth_in_mono [of k "k + 1"], simp_all)
qed

lemma crawl_links_depth_in:
  assumes "crawl_links E C n f links d s = Some s'"
  shows "appends (depth_in (d + 1) (crawl_depth C)) s s'"
proof (rule crawl_links_rel [of E C n d "\<lambda>d. appends (depth_in d (crawl_depth C))", OF _ _ _ assms])
  show "appends (depth_in (d + 1) (crawl_depth C)) t t'"
    if "crawl_page E C n u (d + 1) t = Some t'" for u t t'
    using that by (rule crawl_page_depth_in)
  show "appends (depth_in (d + 1) (crawl_depth C)) t t" for t by (rule appends_refl)
  show "appends (depth_in (d + 1) (crawl_depth C)) t t2"
    if "appends (depth_in (d + 1) (crawl_depth C)) t t1"
      "appends (depth_in (d + 1) (crawl_depth C)) t1 t2" for t t1 t2
    using that by (rule appends_trans)
qed

lemma depth_in_crawl_depths:
  "list_all (depth_in lo hi) evs \<Longrightarrow> \<forall>k\<in>set (crawl_depths evs). lo \<le> k \<and> k \<le> hi"
  by (induction evs) (auto simp: projections_Cons depth_in_def split: event.splits)

lemma site_run:
  "map_option trace (crawl site_env depth1_config 5 ''http://site/'') =
     Some [VisitedAdd ''http://site/'', SitemapAppend ''http://site/'',
   Crawling ''http://site/'' 0, HttpGet ''http://site/'' 1,
   FileWrite ''site/html/index.html'', FileWrite ''src/index.html'',
   VisitedAdd ''http://site/i.png'', AssetFetch ''http://site/i.png'',
   AssetGet ''http://site/i.png'' 1, FileWrite ''site/images/i.png'',
   FileWrite ''src/i.png'', VisitedAdd ''http://site/b'',
   SitemapAppend ''http://site/b'', Crawling ''http://site/b'' 1,
   HttpGet ''http://site/b'' 1, FileWrite ''site/html/b/index.html'',
   FileWrite ''src/b/index.html'']"
  by (simp add: crawl_def site_env_def depth1_config_def site_get_def site_selector_def
      link_to_def image_of_def ok_response_def is_redirect_def
      crawl_page_Suc page_entry_def page_body_def fetch_with_redirects.simps try_fetch_def
      download_asset_def save_file_def save_target_def derive_path_def classify_def image_ext_def
      analyze_content_def page_assets_def page_links_def attr_values_def
      env_defs str_defs numeral_nat upto.simps Let_def)

lemma links_run:
  "map_option trace (crawl_links site_env depth1_config 4 ''http://site/'' [''/b''] 0
      initial_session) =
     Some [VisitedAdd ''http://site/b'', SitemapAppend ''http://site/b'',
       Crawling ''http://site/b'' 1, HttpGet ''http://site/b'' 1,
       FileWrite ''site/html/b/index.html'', FileWrite ''src/b/index.html'']"
  by (simp add: site_env_def depth1_config_def site_get_def site_selector_def
      link_to_def image_of_def ok_response_def is_redirect_def
      crawl_page_Suc page_entry_def page_body_def fetch_with_redirects.simps try_fetch_def
      download_asset_def save_file_def save_target_def derive_path_def classify_def image_ext_def
      analyze_content_def page_assets_def page_links_def attr_values_def
      env_defs str_defs numeral_nat upto.simps Let_def)

lemma site_sitemap:
  "map_option sitemap (crawl site_env depth1_config 5 ''http://site/'') =
     Some [''http://site/'', ''http://site/b'']"
  by (simp add: crawl_def site_env_def depth1_config_def site_get_def site_selector_def
      link_to_def image_of_def ok_response_def is_redirect_def
      crawl_page_Suc page_entry_def page_body_def fetch_with_redirects.simps try_fetch_def
      download_asset_def save_file_def save_target_def derive_path_def classify_def image_ext_def
      analyze_content_def page_assets_def page_links_def attr_values_def
      env_defs str_defs numeral_nat upto.simps Let_def)

section \<open>Crawl Scheduler: deduplication\<close>

text \<open>
  Claim C1. In every run that returns, the trace passes \<open>dedup_ok\<close> from the empty sets:
  a URL is added to \<open>visited_urls\<close> only when it is not yet in it, so at most once; the
  scheduler starts a fetch (a page fetch or an asset download) only for a URL that has
  been added before and for which it has not started a fetch yet, so at most once per
  literal URL string; and a URL is appended to the sitemap only when it has not been
  appended yet. \<open>visited_urls\<close> holds exactly the URLs added, the sitemap exactly the URLs
  appended, in order, and it has no duplicate. URLs are compared as strings. The
  requests that one fetch makes (its retries, the hops of a redirect chain) are parts
  of that fetch.
\<close>

theorem crawl_dedup:
  assumes "crawl E C n url = Some s'"
  shows "dedup_ok {} {} {} (trace s') \<and> visited_urls s' = set (added (trace s'))
         \<and> sitemap s' = appended (trace s') \<and> distinct (sitemap s')"
proof -
  from assms have "crawl_page E C n url 0 initial_session = Some s'"
    by (simp add: crawl_def)
  from crawl_page_dedup_inv [OF this dedup_inv_initial] have inv: "dedup_inv s'" .
  then have ok: "dedup_ok {} {} {} (trace s')" by (simp add: dedup_inv_def)
  from dedup_ok_distinct [OF ok] inv show ?thesis by (simp add: dedup_inv_def)
qed

theorem crawl_dedup_witness:
  "(case crawl site_env depth1_config 5 ''http://site/'' of
      None \<Rightarrow> False
    | Some s' \<Rightarrow>
        sitemap s' = [''http://site/'', ''http://site/b'']
        \<and> added (trace s') = [''http://site/'', ''http://site/i.png'', ''http://site/b'']
        \<and> started (trace s') = [''http://site/'', ''http://site/i.png'', ''http://site/b'']
        \<and> dedup_ok {} {} {} (trace s') \<and> distinct (sitemap s'))"
proof -
  from site_run site_sitemap obtain s' where
    c: "crawl site_env depth1_config 5 ''http://site/'' = Some s'"
    and t: "trace s' = [VisitedAdd ''http://site/'', SitemapAppend ''http://site/'',
   Crawling ''http://site/'' 0, HttpGet ''http://site/'' 1,
   FileWrite ''site/html/index.html'', FileWrite ''src/index.html'',
   VisitedAdd ''http://site/i.png'', AssetFetch ''http://site/i.png'',
   AssetGet ''http://site/i.png'' 1, FileWrite ''site/images/i.png'',
   FileWrite ''src/i.png'', VisitedAdd ''http://site/b'',
   SitemapAppend ''http://site/b'', Crawling ''http://site/b'' 1,
   HttpGet ''http://site/b'' 1, FileWrite ''site/html/b/index.html'',
   FileWrite ''src/b/index.html'']"
    and m: "sitemap s' = [''http://site/'', ''http://site/b'']"
    by (cases "crawl site_env depth1_config 5 ''http://site/''") auto
  from crawl_dedup [OF c] have "dedup_ok {} {} {} (trace s') \<and> distinct (sitemap s')"
    by blast
  with c t m show ?thesis by (simp add: projections_Cons)
qed

section \<open>Crawl Scheduler: the depth bound\<close>

text \<open>
  Claim C2. Every page fetch of a run that returns happens at a depth from 0 to the
  configured maximum. More generally, the page fetches that a call of \<open>_crawl_page\<close> at
  depth \<open>d\<close> adds to the trace have depths from \<open>d\<close> to the maximum, and those that the
  loop over its links adds have depths from \<open>d + 1\<close> to the maximum: the depth never
  falls below that of the call and grows by one with each recursion.
\<close>

theorem crawl_depth_bound:
  "(crawl E C n url = Some s'
      \<longrightarrow> (\<forall>k\<in>set (crawl_depths (trace s')). 0 \<le> k \<and> k \<le> crawl_depth C))
   \<and> (crawl_page E C n url d s = Some s1
      \<longrightarrow> (\<forall>k\<in>set (crawl_depths (new_events s s1)). d \<le> k \<and> k \<le> crawl_depth C))
   \<and> (crawl_links E C n f links d s = Some s2
      \<longrightarrow> (\<forall>k\<in>set (crawl_depths (new_events s s2)). d + 1 \<le> k \<and> k \<le> crawl_depth C))"
proof -
  have page: "\<forall>k\<in>set (crawl_depths (new_events t t')). j \<le> k \<and> k \<le> crawl_depth C"
    if "crawl_page E C n u j t = Some t'" for u j t t'
    using appends_new_events [OF crawl_page_depth_in [OF that]]
    by (intro depth_in_crawl_depths) simp
  have links: "\<forall>k\<in>set (crawl_depths (new_events s s2)). d + 1 \<le> k \<and> k \<le> crawl_depth C"
    if "crawl_links E C n f links d s = Some s2"
    using appends_new_events [OF crawl_links_depth_in [OF that]]
    by (intro depth_in_crawl_depths) simp
  have "\<forall>k\<in>set (crawl_depths (trace s')). 0 \<le> k \<and> k \<le> crawl_depth C"
    if "crawl E C n url = Some s'"
    using page [of url 0 initial_session s'] that
    by (simp add: crawl_def new_events_def initial_session_def)
  with page links show ?thesis by blast
qed

theorem crawl_depth_bound_witness:
  "(case crawl site_env depth1_config 5 ''http://site/'' of
      None \<Rightarrow> False
    | Some s' \<Rightarrow>
        crawl_depths (trace s') = [0, 1]
        \<and> list_all (\<lambda>k. 0 \<le> k \<and> k \<le> crawl_depth depth1_config) (crawl_depths (trace s')))
   \<and> (case crawl_links site_env depth1_config 4 ''http://site/'' [''/b''] 0 initial_session of
      None \<Rightarrow> False
    | Some s2 \<Rightarrow>
        crawl_depths (new_events initial_session s2) = [1]
        \<and> list_all (\<lambda>k. 0 + 1 \<le> k \<and> k \<le> crawl_depth depth1_config)
            (crawl_depths (new_events initial_session s2)))"
proof -
  from site_run obtain s' where
    c: "crawl site_env depth1_config 5 ''http://site/'' = Some s'"
    and t: "crawl_depths (trace s') = [0, 1]"
    by (cases "crawl site_env depth1_config 5 ''http://site/''") (auto simp: projections_Cons)
  from links_run obtain s2 where
    l: "crawl_links site_env depth1_config 4 ''http://site/'' [''/b''] 0 initial_session = Some s2"
    and u: "crawl_depths (trace s2) = [1]"
    by (cases "crawl_links site_env depth1_config 4 ''http://site/'' [''/b''] 0 initial_session")
      (auto simp: projections_Cons)
  from u have u': "crawl_depths (new_events initial_session s2) = [1]"
    by (simp add: new_events_def initial_session_def)
  have cp: "crawl_page site_env depth1_config 5 ''http://site/'' 0 initial_session = Some s'"
    using c by (simp add: crawl_def)
  from crawl_depth_bound [of site_env depth1_config 5 "''http://site/''" s' 0 initial_session s']
    c cp
  have a: "list_all (\<lambda>k. 0 \<le> k \<and> k \<le> crawl_depth depth1_config) (crawl_depths (trace s'))"
    by (simp add: list_all_iff)
  from crawl_depth_bound [of site_env depth1_config 4 "''http://site/''" s' 0 initial_session s'
      "''http://site/''" "[''/b'']" s2] l
  have b: "list_all (\<lambda>k. 0 + 1 \<le> k \<and> k \<le> crawl_depth depth1_config)
            (crawl_depths (new_events initial_session s2))"
    by (simp add: list_all_iff)
  from c l t u' a b show ?thesis by simp
qed

section \<open>Content Analyzer: the frame of the JavaScript analysis\<close>

lemma save_file_files:
  "files (save_file E url content b ct s) p = files s p
   \<or> files (save_file E url content b ct s) p
       = Some (if \<not> b then rewrite_urls E content url else content)"
  by (simp add: save_file_def Let_def)

text \<open>
  Claim C10, as amended. The JavaScript analysis step changes no field of the session
  but the trace of effects and, in the analysis report, the field \<open>api_endpoints\<close>:
  \<open>visited_urls\<close>, the redirect map, the sitemap, the files and the other fields of the
  report are as before, whatever the parse does, and the renamed text is a local value
  that the caller drops. The step runs after the asset has been saved, and only for
  text: what a file of the asset holds is what the save step wrote, the fetched text
  after URL rewriting.
\<close>

theorem analyze_js_frame:
  "visited_urls (fst (analyze_js E content url s)) = visited_urls s
   \<and> redirects (fst (analyze_js E content url s)) = redirects s
   \<and> sitemap (fst (analyze_js E content url s)) = sitemap s
   \<and> files (fst (analyze_js E content url s)) = files s
   \<and> (analysis (fst (analyze_js E content url s)))\<lparr>api_endpoints := api_endpoints (analysis s)\<rparr>
       = analysis s
   \<and> (files (fst (analyze_js E content url (save_file E url content False ct s))) p = files s p
      \<or> files (fst (analyze_js E content url (save_file E url content False ct s))) p
          = Some (rewrite_urls E content url))"
proof -
  have "(analysis (fst (analyze_js E content url s)))\<lparr>api_endpoints := api_endpoints (analysis s)\<rparr>
       = analysis s"
    using probe_all_analysis [where E = E and us = "find_api_urls E content" and s = s
        and x = "api_endpoints (analysis s)"]
    by (simp add: analyze_js_def)
  moreover have "files (fst (analyze_js E content url s')) = files s'" for s'
    by (rule ext) (simp add: analyze_js_def)
  ultimately show ?thesis
    using save_file_files [of E url content False ct s p]
    by (simp add: analyze_js_def)
qed

text \<open>
  Claim C10 as stated says that the persisted file holds exactly the fetched content. A
  script served as \<open>text/javascript\<close> is text, so \<open>_save_file\<close> passes it through the URL
  rewriter (line 300) before it writes it: the \<open>src\<close> inside the markup that the script
  builds is rewritten, and the file differs from the body that was fetched.
\<close>

theorem saved_script_rewritten:
  "files (download_asset js_env default_config ''http://site/js/app.js'' initial_session)
      ''src/js/app.js''
     = Some (''x=<img src='' @ [dquote] @ ''/js/a.png'' @ [dquote] @ ''>'')
   \<and> files (download_asset js_env default_config ''http://site/js/app.js'' initial_session)
      ''src/js/app.js'' \<noteq> Some js_body"
  by (simp add: download_asset_def js_env_def js_body_def ok_response_def save_file_def
      save_target_def derive_path_def classify_def rewrite_urls_def replace_url_def match_attr_def
      analyze_js_def env_defs str_defs upto.simps Let_def)

end
